theory Spec2Isabelle
  imports Complex_Main "HOL-Library.AList" "HOL-Library.Multiset"
begin

section \<open>Cards (types.ts, constants.ts)\<close>

datatype suit = HEARTS | DIAMONDS | CLUBS | SPADES

datatype rank = TWO | THREE | FOUR | FIVE | SIX | SEVEN | EIGHT | NINE | TEN
  | JACK | QUEEN | KING | ACE

text \<open>
  The string values of the two enums, used for the card identifier. The suit symbols of
  the source are written here with the ASCII initial of the suit.
\<close>

fun suit_str :: "suit \<Rightarrow> string" where
  "suit_str HEARTS = ''H''"
| "suit_str DIAMONDS = ''D''"
| "suit_str CLUBS = ''C''"
| "suit_str SPADES = ''S''"

fun rank_str :: "rank \<Rightarrow> string" where
  "rank_str TWO = ''2''" | "rank_str THREE = ''3''" | "rank_str FOUR = ''4''"
| "rank_str FIVE = ''5''" | "rank_str SIX = ''6''" | "rank_str SEVEN = ''7''"
| "rank_str EIGHT = ''8''" | "rank_str NINE = ''9''" | "rank_str TEN = ''10''"
| "rank_str JACK = ''J''" | "rank_str QUEEN = ''Q''" | "rank_str KING = ''K''"
| "rank_str ACE = ''A''"

record card =
  suit :: suit
  rank :: rank
  card_id :: string

text \<open>The card builder of the test suite: \<open>c(rank, suit)\<close>.\<close>

definition mkCard :: "rank \<Rightarrow> suit \<Rightarrow> card" where
  "mkCard r s = \<lparr>suit = s, rank = r, card_id = rank_str r @ suit_str s\<rparr>"

definition RANKS :: "rank list" where
  "RANKS = [TWO, THREE, FOUR, FIVE, SIX, SEVEN, EIGHT, NINE, TEN, JACK, QUEEN, KING, ACE]"

definition SUITS :: "suit list" where
  "SUITS = [HEARTS, DIAMONDS, CLUBS, SPADES]"

text \<open>\<open>createDeck\<close>: for every suit, for every rank, push the card.\<close>

definition createDeck :: "card list" where
  "createDeck = concat (map (\<lambda>s. map (\<lambda>r. mkCard r s) RANKS) SUITS)"

fun RANK_VALUE :: "rank \<Rightarrow> int" where
  "RANK_VALUE TWO = 2" | "RANK_VALUE THREE = 3" | "RANK_VALUE FOUR = 4"
| "RANK_VALUE FIVE = 5" | "RANK_VALUE SIX = 6" | "RANK_VALUE SEVEN = 7"
| "RANK_VALUE EIGHT = 8" | "RANK_VALUE NINE = 9" | "RANK_VALUE TEN = 10"
| "RANK_VALUE JACK = 11" | "RANK_VALUE QUEEN = 12" | "RANK_VALUE KING = 13"
| "RANK_VALUE ACE = 14"

definition getCardValue :: "card \<Rightarrow> int" where
  "getCardValue c = RANK_VALUE (rank c)"

section \<open>Starting-hand grading (utils/poker.ts)\<close>

record hand_grade =
  score :: rat
  grade :: string
  tip :: string

text \<open>
  The heuristic score of \<open>gradeStartingHand\<close> before it is rounded: the high-card
  points, the pair doubling with its floor of 5, the suited bonus, the gap adjustment and
  the connector bonus, in the order of the source. The division \<open>v1 / 2\<close> is a division
  of numbers, so the score is a rational; every value it takes is a multiple of one half.
\<close>

definition startingHandPoints :: "card \<Rightarrow> card \<Rightarrow> rat" where
  "startingHandPoints h0 h1 =
     (let c1 = (if getCardValue h0 \<ge> getCardValue h1 then h0 else h1);
          c2 = (if getCardValue h0 \<ge> getCardValue h1 then h1 else h0);
          v1 = getCardValue c1;
          v2 = getCardValue c2;
          s1 = (if v1 = 14 then 10 else if v1 = 13 then 8 else if v1 = 12 then 7
                else if v1 = 11 then 6 else of_int v1 / 2);
          s2 = (if v1 = v2 then (if s1 * 2 < 5 then 5 else s1 * 2) else s1);
          s3 = (if suit c1 = suit c2 then s2 + 2 else s2);
          gap = v1 - v2;
          s4 = (if gap = 1 then s3 + 1
                else if gap = 2 then s3 - 1
                else if gap = 3 then s3 - 2
                else if gap = 4 then s3 - 4
                else if gap \<ge> 5 then s3 - 5
                else s3);
          s5 = (if gap \<le> 1 \<and> v1 < 12 \<and> suit c1 = suit c2 then s4 + 1 else s4)
      in s5)"

definition gradeStartingHand :: "card list \<Rightarrow> hand_grade" where
  "gradeStartingHand hand =
     (case hand of
        [h0, h1] \<Rightarrow>
          (let score = of_int \<lceil>startingHandPoints h0 h1\<rceil> in
           if score \<ge> 20 then \<lparr>score = score, grade = ''S'', tip = ''Monster. Raise big.''\<rparr>
           else if score \<ge> 15 then \<lparr>score = score, grade = ''A'', tip = ''Premium. 3-bet territory.''\<rparr>
           else if score \<ge> 10 then \<lparr>score = score, grade = ''B'', tip = ''Strong. Playable from any position.''\<rparr>
           else if score \<ge> 7 then \<lparr>score = score, grade = ''C'', tip = ''Marginal. Careful out of position.''\<rparr>
           else if score \<ge> 5 then \<lparr>score = score, grade = ''D'', tip = ''Speculative. Fold unless on Button.''\<rparr>
           else \<lparr>score = score, grade = ''F'', tip = ''Garbage. Do not play.''\<rparr>)
      | _ \<Rightarrow> \<lparr>score = 0, grade = ''?'', tip = ''Wait for deal''\<rparr>)"

text \<open>
  The grading rule in the words of the specification: the thresholds on the rounded
  score, and the advisory string that goes with each grade.
\<close>

definition spec_grade :: "int \<Rightarrow> string" where
  "spec_grade n =
     (if 20 \<le> n then ''S'' else if 15 \<le> n then ''A'' else if 10 \<le> n then ''B''
      else if 7 \<le> n then ''C'' else if 5 \<le> n then ''D'' else ''F'')"

definition spec_tip :: "string \<Rightarrow> string" where
  "spec_tip g =
     (if g = ''S'' then ''Monster. Raise big.''
      else if g = ''A'' then ''Premium. 3-bet territory.''
      else if g = ''B'' then ''Strong. Playable from any position.''
      else if g = ''C'' then ''Marginal. Careful out of position.''
      else if g = ''D'' then ''Speculative. Fold unless on Button.''
      else ''Garbage. Do not play.'')"

section \<open>Array reads and failures\<close>

text \<open>
  A read of an array outside its bounds yields \<open>undefined\<close> in the source language and
  a property read on \<open>undefined\<close> throws a \<open>TypeError\<close>. Both are outcomes of the model:
  every indexed read goes through \<open>readAt\<close>, and every function that reads is fallible.
\<close>

datatype js_error = OutOfBounds | TypeError

definition readAt :: "'a list \<Rightarrow> int \<Rightarrow> js_error + 'a" where
  "readAt xs i = (if 0 \<le> i \<and> i < int (length xs) then Inr (xs ! nat i) else Inl OutOfBounds)"

section \<open>Hand evaluator (utils/poker.ts)\<close>

record hand_eval =
  score :: int
  description :: string

text \<open>
  \<open>allCards.sort((a, b) => getCardValue(b) - getCardValue(a))\<close>: a stable sort by value,
  descending. \<open>sort_key\<close> is the stable insertion sort, ascending in its key.
\<close>

definition sortByValueDesc :: "card list \<Rightarrow> card list" where
  "sortByValueDesc cs = sort_key (\<lambda>c. - getCardValue c) cs"

text \<open>
  The frequency tables \<open>counts\<close> and \<open>suitCounts\<close>: objects filled by
  \<open>xs.forEach(x => m[x] = (m[x] || 0) + 1)\<close>. An association list keeps the keys in
  the order of their first insertion, which is the order \<open>Object.keys\<close> gives for the
  suit table; for the integer-keyed table the keys are sorted by the caller anyway.
\<close>

definition tally :: "'k list \<Rightarrow> ('k \<times> int) list" where
  "tally xs = foldl (\<lambda>m x. AList.update x ((case map_of m x of None \<Rightarrow> 0 | Some n \<Rightarrow> n) + 1) m) [] xs"

text \<open>\<open>Array.from(new Set(values))\<close>: the distinct elements in order of first occurrence.\<close>

definition uniqueInOrder :: "'a list \<Rightarrow> 'a list" where
  "uniqueInOrder xs = foldl (\<lambda>acc x. if x \<in> set acc then acc else acc @ [x]) [] xs"

text \<open>
  The straight scan: \<open>for (let i = 0; i < uniqueSorted.length - 1; i++)\<close> with the
  running \<open>consecutive\<close> counter and \<open>straightHigh\<close>.
\<close>

function straightScan :: "int list \<Rightarrow> nat \<Rightarrow> int \<Rightarrow> int \<Rightarrow> js_error + int" where
  "straightScan us i consecutive straightHigh =
     (if int i < int (length us) - 1 then
        (case readAt us (int i) of Inl e \<Rightarrow> Inl e
         | Inr a \<Rightarrow>
            (case readAt us (int i + 1) of Inl e \<Rightarrow> Inl e
             | Inr b \<Rightarrow>
                (if a - b = 1 then
                   (if consecutive + 1 \<ge> 4 then
                      (case readAt us (int i - 3) of Inl e \<Rightarrow> Inl e
                       | Inr h \<Rightarrow> straightScan us (i + 1) (consecutive + 1) h)
                    else straightScan us (i + 1) (consecutive + 1) straightHigh)
                 else straightScan us (i + 1) 0 straightHigh)))
      else Inr straightHigh)"
  by pat_completeness auto
termination
  by (relation "measure (\<lambda>(us, i, c, h). length us - i)") auto

declare straightScan.simps [simp del]

definition straightHighOf :: "int list \<Rightarrow> js_error + int" where
  "straightHighOf uniqueSorted =
     (case straightScan uniqueSorted 0 0 0 of Inl e \<Rightarrow> Inl e
      | Inr straightHigh \<Rightarrow>
          if straightHigh = 0 \<and> 14 \<in> set uniqueSorted \<and> 2 \<in> set uniqueSorted
             \<and> 3 \<in> set uniqueSorted \<and> 4 \<in> set uniqueSorted \<and> 5 \<in> set uniqueSorted
          then Inr 5 else Inr straightHigh)"

text \<open>
  The full-house loop over \<open>distinctValues\<close>, on the pair \<open>(three, two)\<close>.
  \<open>counts[v]\<close> is a lookup in the frequency table.
\<close>

definition fullHouseStep :: "(int \<times> int) list \<Rightarrow> int \<times> int \<Rightarrow> int \<Rightarrow> int \<times> int" where
  "fullHouseStep counts tt v =
     (case tt of (three, two) \<Rightarrow>
        if map_of counts v = Some 3 \<and> three = 0 then (v, two)
        else if (case map_of counts v of None \<Rightarrow> False | Some n \<Rightarrow> n \<ge> 2) \<and> two = 0 then (three, v)
        else (three, two))"

definition threeAndTwo :: "(int \<times> int) list \<Rightarrow> int list \<Rightarrow> int \<times> int" where
  "threeAndTwo counts distinctValues = foldl (fullHouseStep counts) (0, 0) distinctValues"

text \<open>
  The flush check: the first suit, in key order of \<open>suitCounts\<close>, with five or more
  cards (\<open>Object.keys(suitCounts).find(s => suitCounts[s] >= 5)\<close>).
\<close>

definition flushSuitOf :: "suit list \<Rightarrow> suit option" where
  "flushSuitOf suits =
     (let suitCounts = tally suits in
      List.find (\<lambda>s. case map_of suitCounts s of None \<Rightarrow> False | Some n \<Rightarrow> n \<ge> 5)
        (map fst suitCounts))"

text \<open>
  The part of \<open>evaluateHand\<close> after the comment \<open>// Detect Hands\<close>: the classes are
  tried in descending priority and the first match returns.
\<close>

definition detectHand ::
  "int list \<Rightarrow> (int \<times> int) list \<Rightarrow> int list \<Rightarrow> bool \<Rightarrow> int list \<Rightarrow> int \<Rightarrow> js_error + hand_eval" where
  "detectHand values counts distinctValues isFlush flushCards straightHigh =
     (case List.find (\<lambda>v. map_of counts v = Some 4) distinctValues of
        Some v \<Rightarrow> Inr \<lparr>score = 7000 + v, description = ''Four of a Kind''\<rparr>
      | None \<Rightarrow>
         (case threeAndTwo counts distinctValues of (three, two) \<Rightarrow>
            (if three \<noteq> 0 \<and> two \<noteq> 0
             then Inr \<lparr>score = 6000 + three * 10 + two, description = ''Full House''\<rparr>
             else if isFlush then
               (case readAt flushCards 0 of Inl e \<Rightarrow> Inl e
                | Inr f \<Rightarrow> Inr \<lparr>score = 5000 + f, description = ''Flush''\<rparr>)
             else if straightHigh \<noteq> 0
             then Inr \<lparr>score = 4000 + straightHigh, description = ''Straight''\<rparr>
             else if three \<noteq> 0
             then Inr \<lparr>score = 3000 + three, description = ''Three of a Kind''\<rparr>
             else
               (let pairs = filter (\<lambda>v. map_of counts v = Some 2) distinctValues in
                if length pairs \<ge> 2 then
                  (case readAt pairs 0 of Inl e \<Rightarrow> Inl e
                   | Inr p0 \<Rightarrow>
                      (case readAt pairs 1 of Inl e \<Rightarrow> Inl e
                       | Inr p1 \<Rightarrow> Inr \<lparr>score = 2000 + p0 * 10 + p1, description = ''Two Pair''\<rparr>))
                else if length pairs = 1 then
                  (case readAt pairs 0 of Inl e \<Rightarrow> Inl e
                   | Inr p0 \<Rightarrow> Inr \<lparr>score = 1000 + p0, description = ''Pair''\<rparr>)
                else
                  (case readAt values 0 of Inl e \<Rightarrow> Inl e
                   | Inr v0 \<Rightarrow> Inr \<lparr>score = v0, description = ''High Card''\<rparr>)))))"

definition evaluateHand :: "card list \<Rightarrow> card list \<Rightarrow> js_error + hand_eval" where
  "evaluateHand holeCards communityCards =
     (let allCards0 = holeCards @ communityCards in
      if length allCards0 = 0 then Inr \<lparr>score = 0, description = ''Waiting''\<rparr>
      else
        (let allCards = sortByValueDesc allCards0;
             values = map getCardValue allCards;
             suits = map suit allCards;
             counts = tally values;
             distinctValues = sort_key (\<lambda>v. - v) (map fst counts);
             flushSuit = flushSuitOf suits;
             isFlush = (flushSuit \<noteq> None);
             flushCards = (case flushSuit of None \<Rightarrow> []
                           | Some fs \<Rightarrow> map getCardValue (filter (\<lambda>c. suit c = fs) allCards));
             uniqueSorted = uniqueInOrder values
         in
         (case straightHighOf uniqueSorted of Inl e \<Rightarrow> Inl e
          | Inr straightHigh \<Rightarrow>
              detectHand values counts distinctValues isFlush flushCards straightHigh)))"

text \<open>
  The band of scores of each hand class: the base offset of the class plus the least and
  the greatest tie-break term that card values between 2 and 14 can produce.
\<close>

definition classBand :: "string \<Rightarrow> (int \<times> int) option" where
  "classBand d =
     (if d = ''Four of a Kind'' then Some (7002, 7014)
      else if d = ''Full House'' then Some (6022, 6154)
      else if d = ''Flush'' then Some (5002, 5014)
      else if d = ''Straight'' then Some (4002, 4014)
      else if d = ''Three of a Kind'' then Some (3002, 3014)
      else if d = ''Two Pair'' then Some (2022, 2154)
      else if d = ''Pair'' then Some (1002, 1014)
      else if d = ''High Card'' then Some (2, 14)
      else if d = ''Waiting'' then Some (0, 0)
      else None)"

definition inBand :: "hand_eval \<Rightarrow> bool" where
  "inBand r = (case classBand (description r) of None \<Rightarrow> False
               | Some (lo, hi) \<Rightarrow> lo \<le> score r \<and> score r \<le> hi)"

section \<open>Game state (types.ts, constants.ts)\<close>

datatype GamePhase = MENU | SHOP | PRE_FLOP | FLOP | TURN | RIVER | SHOWDOWN | GAME_OVER

fun phase_str :: "GamePhase \<Rightarrow> string" where
  "phase_str MENU = ''MENU''"
| "phase_str SHOP = ''SHOP''"
| "phase_str PRE_FLOP = ''PRE_FLOP''"
| "phase_str FLOP = ''FLOP''"
| "phase_str TURN = ''TURN''"
| "phase_str RIVER = ''RIVER''"
| "phase_str SHOWDOWN = ''SHOWDOWN''"
| "phase_str GAME_OVER = ''GAME_OVER''"

record player =
  player_id :: string
  name :: string
  chips :: int
  hand :: "card list"
  isHuman :: bool
  isActive :: bool
  isAllIn :: bool
  currentBet :: int
  position :: string
  personality :: "string option"
  avatarSeed :: "int option"
  actionMessage :: "string option"

record hand_history_entry =
  entry_id :: string
  handNumber :: int
  winnerNames :: "string list"
  winAmount :: int
  winningHand :: string
  date :: string

text \<open>
  The field \<open>currentBet\<close> exists on a seat and on the table; written without a
  qualifier it is the table's, and \<open>player.currentBet\<close> is the seat's.
\<close>

record game_state =
  phase :: GamePhase
  pot :: int
  communityCards :: "card list"
  deck :: "card list"
  players :: "player list"
  currentPlayerIndex :: int
  dealerIndex :: int
  minBet :: int
  currentBet :: int
  lastRaiserIndex :: "int option"
  roundLog :: "string list"
  deckColor :: string
  winners :: "player list"
  winningHandDesc :: string
  lastPotSize :: int
  handHistory :: "hand_history_entry list"
  handCount :: int

definition STARTING_CHIPS :: int where "STARTING_CHIPS = 1000"
definition BIG_BLIND :: int where "BIG_BLIND = 20"
definition SMALL_BLIND :: int where "SMALL_BLIND = 10"

section \<open>Numbers and strings of the host language\<close>

text \<open>
  Chip amounts and indices are integers. The remainder operator \<open>%\<close> truncates towards
  zero and takes the sign of the dividend; with a zero divisor it yields \<open>NaN\<close>, which
  every caller below meets only with an empty seat list and handles before it divides.
\<close>

definition jsRem :: "int \<Rightarrow> int \<Rightarrow> int" where
  "jsRem a n = sgn a * (\<bar>a\<bar> mod \<bar>n\<bar>)"

text \<open>
  \<open>players[i]\<close> followed by a property read: outside the array the element is
  \<open>undefined\<close> and the read throws.
\<close>

definition seatAt :: "player list \<Rightarrow> int \<Rightarrow> js_error + player" where
  "seatAt ps i = (if 0 \<le> i \<and> i < int (length ps) then Inr (ps ! nat i) else Inl TypeError)"

text \<open>\<open>Array.prototype.findIndex\<close>: the index of the first match, or \<open>-1\<close>.\<close>

fun findIndexFrom :: "('a \<Rightarrow> bool) \<Rightarrow> 'a list \<Rightarrow> int \<Rightarrow> int" where
  "findIndexFrom P [] k = - 1"
| "findIndexFrom P (x # xs) k = (if P x then k else findIndexFrom P xs (k + 1))"

definition findIndex :: "('a \<Rightarrow> bool) \<Rightarrow> 'a list \<Rightarrow> int" where
  "findIndex P xs = findIndexFrom P xs 0"

text \<open>Decimal rendering of an integer, as template strings do.\<close>

fun showNat :: "nat \<Rightarrow> string" where
  "showNat n = (if n < 10 then [char_of (48 + n)] else showNat (n div 10) @ [char_of (48 + n mod 10)])"

declare showNat.simps [simp del]

definition showInt :: "int \<Rightarrow> string" where
  "showInt i = (if i < 0 then CHR ''-'' # showNat (nat (- i)) else showNat (nat i))"

text \<open>\<open>toLowerCase\<close> on the ASCII letters, \<open>trim\<close> on the ASCII white space.\<close>

definition toLowerCase :: "string \<Rightarrow> string" where
  "toLowerCase str = map (\<lambda>c. if 65 \<le> (of_char c :: nat) \<and> (of_char c :: nat) \<le> 90
                                then char_of ((of_char c :: nat) + 32) else c) str"

definition isSpace :: "char \<Rightarrow> bool" where
  "isSpace c = ((of_char c :: nat) = 32 \<or> (9 \<le> (of_char c :: nat) \<and> (of_char c :: nat) \<le> 13))"

definition trim :: "string \<Rightarrow> string" where
  "trim str = rev (dropWhile isSpace (rev (dropWhile isSpace str)))"

text \<open>\<open>str.split(' ')[0]\<close>: the text before the first blank.\<close>

definition firstWord :: "string \<Rightarrow> string" where
  "firstWord str = takeWhile (\<lambda>c. c \<noteq> CHR '' '') str"

fun joinWith :: "string \<Rightarrow> string list \<Rightarrow> string" where
  "joinWith sep [] = []"
| "joinWith sep [x] = x"
| "joinWith sep (x # y # ys) = x @ sep @ joinWith sep (y # ys)"

section \<open>Betting engine (GameEngine)\<close>

text \<open>
  \<open>deck.pop()!\<close> takes the last card. On an empty deck the source gets \<open>undefined\<close>
  and stores it where a card is expected; the model stops there with \<open>EmptyDeck\<close>.
\<close>

datatype engine_error = Js js_error | EmptyDeck

definition popCard :: "card list \<Rightarrow> engine_error + (card \<times> card list)" where
  "popCard d = (if d = [] then Inl EmptyDeck else Inr (last d, butlast d))"

definition seatOf :: "player list \<Rightarrow> int \<Rightarrow> engine_error + player" where
  "seatOf ps i = (case seatAt ps i of Inl e \<Rightarrow> Inl (Js e) | Inr p \<Rightarrow> Inr p)"

subsection \<open>setupNewHand\<close>

text \<open>
  The two blind-posting blocks of \<open>setupNewHand\<close> are the same statements, on
  \<open>sbIndex\<close> with \<open>SMALL_BLIND\<close> and then on \<open>bbIndex\<close> with \<open>BIG_BLIND\<close>. The seat
  object is updated in place, so the second block sees the first block's update.
\<close>

definition postBlind :: "player list \<Rightarrow> int \<Rightarrow> int \<Rightarrow> engine_error + (player list \<times> int)" where
  "postBlind ps idx blind =
     (case seatOf ps idx of Inl e \<Rightarrow> Inl e
      | Inr p \<Rightarrow>
          (let amt = min blind (chips p);
               p1 = p\<lparr>chips := chips p - amt, player.currentBet := amt\<rparr>;
               p2 = (if chips p1 = 0 then p1\<lparr>isAllIn := True\<rparr> else p1)
           in Inr (ps[nat idx := p2], amt)))"

text \<open>\<open>players.forEach(p => { if (p.isActive) p.hand = [deck.pop()!, deck.pop()!] })\<close>\<close>

fun dealHands :: "player list \<Rightarrow> card list \<Rightarrow> engine_error + (player list \<times> card list)" where
  "dealHands [] d = Inr ([], d)"
| "dealHands (p # ps) d =
     (if isActive p then
        (case popCard d of Inl e \<Rightarrow> Inl e
         | Inr (a, d1) \<Rightarrow>
            (case popCard d1 of Inl e \<Rightarrow> Inl e
             | Inr (b, d2) \<Rightarrow>
                (case dealHands ps d2 of Inl e \<Rightarrow> Inl e
                 | Inr (ps', d') \<Rightarrow> Inr (p\<lparr>hand := [a, b]\<rparr> # ps', d'))))
      else
        (case dealHands ps d of Inl e \<Rightarrow> Inl e
         | Inr (ps', d') \<Rightarrow> Inr (p # ps', d')))"

text \<open>
  \<open>setupNewHand\<close>. The shuffled deck \<open>shuffleDeck(createDeck())\<close> is random in the
  source and an argument here.
\<close>

definition setupNewHand ::
  "card list \<Rightarrow> player list \<Rightarrow> int \<Rightarrow> int \<Rightarrow> hand_history_entry list \<Rightarrow> engine_error + game_state" where
  "setupNewHand shuffled currentPlayers dealerIdx handCount0 currentHistory =
     (let players0 = map (\<lambda>p. p\<lparr>hand := [], isActive := chips p > 0, isAllIn := False,
                                 player.currentBet := 0, actionMessage := None\<rparr>) currentPlayers;
          n = int (length players0)
      in
      if n = 0 then Inl (Js TypeError)
      else
        (let nextDealer = jsRem (dealerIdx + 1) n;
             headsUp = (length (filter (\<lambda>p. chips p > 0) players0) = 2);
             sbIndex = (if headsUp then nextDealer else jsRem (nextDealer + 1) n);
             bbIndex = (if headsUp then jsRem (nextDealer + 1) n else jsRem (nextDealer + 2) n)
         in
         (case postBlind players0 sbIndex SMALL_BLIND of Inl e \<Rightarrow> Inl e
          | Inr (players1, sbAmt) \<Rightarrow>
             (case postBlind players1 bbIndex BIG_BLIND of Inl e \<Rightarrow> Inl e
              | Inr (players2, bbAmt) \<Rightarrow>
                 (case dealHands players2 shuffled of Inl e \<Rightarrow> Inl e
                  | Inr (players3, deck3) \<Rightarrow>
                      Inr \<lparr>phase = PRE_FLOP,
                           pot = sbAmt + bbAmt,
                           communityCards = [],
                           deck = deck3,
                           players = players3,
                           currentPlayerIndex = jsRem (bbIndex + 1) n,
                           dealerIndex = nextDealer,
                           minBet = BIG_BLIND,
                           currentBet = BIG_BLIND,
                           lastRaiserIndex = Some bbIndex,
                           roundLog = [''Hand #'' @ showInt (handCount0 + 1) @ '' Started''],
                           deckColor = ''blue'',
                           winners = [],
                           winningHandDesc = [],
                           lastPotSize = 0,
                           handHistory = currentHistory,
                           handCount = handCount0 + 1\<rparr>)))))"

subsection \<open>processPlayerAction\<close>

text \<open>
  \<open>displayTotal || actualAmount || ''\<close> and \<open>displayTotal || (actualAmount > 0 ? actualAmount : '')\<close>:
  a missing or zero number is falsy.
\<close>

definition bubbleAmount :: "int option \<Rightarrow> int \<Rightarrow> string" where
  "bubbleAmount displayTotal actualAmount =
     (case displayTotal of
        Some t \<Rightarrow> (if t \<noteq> 0 then showInt t else if actualAmount \<noteq> 0 then showInt actualAmount else [])
      | None \<Rightarrow> (if actualAmount \<noteq> 0 then showInt actualAmount else []))"

definition logAmount :: "int option \<Rightarrow> int \<Rightarrow> string" where
  "logAmount displayTotal actualAmount =
     (case displayTotal of
        Some t \<Rightarrow> (if t \<noteq> 0 then showInt t else if actualAmount > 0 then showInt actualAmount else [])
      | None \<Rightarrow> (if actualAmount > 0 then showInt actualAmount else []))"

definition processPlayerAction ::
  "game_state \<Rightarrow> player \<Rightarrow> int \<Rightarrow> string \<Rightarrow> int option \<Rightarrow> engine_error + game_state" where
  "processPlayerAction state pl amount actionVerb displayTotal =
     (let pIndex = findIndex (\<lambda>p. player_id p = player_id pl) (players state);
          actualAmount = min amount (chips pl)
      in
      (case seatOf (players state) pIndex of Inl e \<Rightarrow> Inl e
       | Inr p \<Rightarrow>
          (let p1 = p\<lparr>chips := chips p - actualAmount,
                      player.currentBet := player.currentBet p + actualAmount\<rparr>;
               p2 = (if chips p1 = 0 then p1\<lparr>isAllIn := True\<rparr> else p1);
               bubbleText = trim (firstWord actionVerb @ '' '' @ bubbleAmount displayTotal actualAmount);
               p3 = p2\<lparr>actionMessage := Some (if bubbleText = ''Checks'' then ''Check'' else bubbleText)\<rparr>;
               logMsg = trim (name pl @ '' '' @ toLowerCase actionVerb @ '' ''
                              @ logAmount displayTotal actualAmount);
               newPot = pot state + actualAmount;
               isRaise = (player.currentBet p3 > currentBet state)
           in
           Inr (state\<lparr>players := (players state)[nat pIndex := p3],
                      pot := newPot,
                      currentBet := (if isRaise then player.currentBet p3 else currentBet state),
                      minBet := (if isRaise then max (minBet state) (player.currentBet p3 - currentBet state)
                                 else minBet state),
                      lastRaiserIndex := (if isRaise then Some pIndex else lastRaiserIndex state),
                      roundLog := roundLog state @ [logMsg]\<rparr>))))"

subsection \<open>handleShowdown\<close>

text \<open>
  The loop over the active seats, on \<open>(bestScore, winners, bestHandDesc)\<close>. The
  evaluator is fallible in the model, so the loop is too.
\<close>

fun showdownScan ::
  "card list \<Rightarrow> player list \<Rightarrow> int \<times> player list \<times> string \<Rightarrow> engine_error + (int \<times> player list \<times> string)" where
  "showdownScan community [] acc = Inr acc"
| "showdownScan community (p # ps) (bestScore, winners0, bestHandDesc) =
     (case evaluateHand (hand p) community of Inl e \<Rightarrow> Inl (Js e)
      | Inr evalResult \<Rightarrow>
          (if score evalResult > bestScore
           then showdownScan community ps (score evalResult, [p], description evalResult)
           else if score evalResult = bestScore
           then showdownScan community ps (bestScore, winners0 @ [p], bestHandDesc)
           else showdownScan community ps (bestScore, winners0, bestHandDesc)))"

text \<open>
  \<open>handleShowdown\<close>. The history entry's \<open>date\<close> is the wall-clock time rendered as
  a string, an argument here. \<open>Math.floor(state.pot / winners.length)\<close> is the floor
  division of integers; the winner list is not empty when an active seat exists.
\<close>

definition handleShowdown :: "string \<Rightarrow> game_state \<Rightarrow> engine_error + game_state" where
  "handleShowdown now state =
     (let activePlayers = filter isActive (players state) in
      if length activePlayers = 0 then Inr state
      else
        (case showdownScan (communityCards state) activePlayers (- 1, [], []) of Inl e \<Rightarrow> Inl e
         | Inr (bestScore, winners1, bestHandDesc) \<Rightarrow>
            (let winAmount1 = pot state div int (length winners1);
                 newPlayers = map (\<lambda>p. if List.find (\<lambda>w. player_id w = player_id p) winners1 \<noteq> None
                                         then p\<lparr>chips := chips p + winAmount1\<rparr> else p) (players state);
                 historyEntry = \<lparr>entry_id = ''hand_'' @ showInt (handCount state),
                                 handNumber = handCount state,
                                 winnerNames = map name winners1,
                                 winAmount = pot state,
                                 winningHand = bestHandDesc,
                                 date = now\<rparr>
             in
             Inr (state\<lparr>players := newPlayers,
                        phase := SHOWDOWN,
                        pot := 0,
                        lastPotSize := pot state,
                        winners := winners1,
                        winningHandDesc := bestHandDesc,
                        roundLog := roundLog state
                          @ [''Showdown! Winner: '' @ joinWith '', '' (map name winners1)
                             @ '' ('' @ bestHandDesc @ '')''],
                        handHistory := handHistory state @ [historyEntry]\<rparr>))))"

subsection \<open>nextPhase\<close>

text \<open>The burn and the deal of one street, by the phase the hand is in.\<close>

definition dealStreet ::
  "GamePhase \<Rightarrow> card list \<Rightarrow> card list \<Rightarrow> engine_error + (GamePhase \<times> card list \<times> card list)" where
  "dealStreet ph newDeck newCommunityCards =
     (if ph = PRE_FLOP then
        (case popCard newDeck of Inl e \<Rightarrow> Inl e
         | Inr (burn, d1) \<Rightarrow>
            (case popCard d1 of Inl e \<Rightarrow> Inl e
             | Inr (a, d2) \<Rightarrow>
                (case popCard d2 of Inl e \<Rightarrow> Inl e
                 | Inr (b, d3) \<Rightarrow>
                    (case popCard d3 of Inl e \<Rightarrow> Inl e
                     | Inr (c, d4) \<Rightarrow> Inr (FLOP, d4, newCommunityCards @ [a, b, c])))))
      else if ph = FLOP \<or> ph = TURN then
        (case popCard newDeck of Inl e \<Rightarrow> Inl e
         | Inr (burn, d1) \<Rightarrow>
            (case popCard d1 of Inl e \<Rightarrow> Inl e
             | Inr (a, d2) \<Rightarrow> Inr (if ph = FLOP then TURN else RIVER, d2, newCommunityCards @ [a])))
      else Inr (ph, newDeck, newCommunityCards))"

text \<open>
  The first-actor scan: \<open>while ((!p.isActive || p.isAllIn) && safety < 10)\<close>, from
  the seat left of the dealer.
\<close>

function firstActorScan :: "player list \<Rightarrow> int \<Rightarrow> nat \<Rightarrow> engine_error + int" where
  "firstActorScan ps firstActor safety =
     (case seatOf ps firstActor of Inl e \<Rightarrow> Inl e
      | Inr p \<Rightarrow>
          (if (\<not> isActive p \<or> isAllIn p) \<and> safety < 10
           then firstActorScan ps (jsRem (firstActor + 1) (int (length ps))) (safety + 1)
           else Inr firstActor))"
  by pat_completeness auto
termination
  by (relation "measure (\<lambda>(ps, i, k). 10 - k)") auto

declare firstActorScan.simps [simp del]

text \<open>
  \<open>nextPhase\<close> calls itself when no seat can act. In the phases that deal no street
  the state it calls itself on has the same phase and seats, and the call never returns:
  the value \<open>None\<close>.
\<close>

partial_function (option) nextPhase :: "string \<Rightarrow> game_state \<Rightarrow> (engine_error + game_state) option" where
  "nextPhase now state =
     (if phase state = RIVER
      then Some (handleShowdown now (state\<lparr>players := map (\<lambda>p. p\<lparr>player.currentBet := 0\<rparr>) (players state)\<rparr>))
      else
        (case dealStreet (phase state) (deck state) (communityCards state) of Inl e \<Rightarrow> Some (Inl e)
         | Inr (nextGamePhase, newDeck, newCommunityCards) \<Rightarrow>
            (if players state = [] then Some (Inl (Js TypeError))
             else
               (case firstActorScan (map (\<lambda>p. p\<lparr>player.currentBet := 0\<rparr>) (players state))
                       (jsRem (dealerIndex state + 1) (int (length (players state)))) 0 of
                  Inl e \<Rightarrow> Some (Inl e)
                | Inr firstActor \<Rightarrow>
                    (if filter (\<lambda>p. isActive p \<and> \<not> isAllIn p)
                          (map (\<lambda>p. p\<lparr>player.currentBet := 0\<rparr>) (players state)) = []
                        \<and> nextGamePhase \<noteq> SHOWDOWN
                     then nextPhase now
                            (state\<lparr>phase := nextGamePhase,
                                   deck := newDeck,
                                   communityCards := newCommunityCards,
                                   players := map (\<lambda>p. p\<lparr>player.currentBet := 0\<rparr>) (players state),
                                   currentBet := 0,
                                   minBet := BIG_BLIND,
                                   currentPlayerIndex := firstActor,
                                   lastRaiserIndex := Some firstActor,
                                   roundLog := roundLog state
                                     @ [''--- '' @ phase_str nextGamePhase @ '' (Auto) ---'']\<rparr>)
                     else Some (Inr (state\<lparr>phase := nextGamePhase,
                                   deck := newDeck,
                                   communityCards := newCommunityCards,
                                   players := map (\<lambda>p. p\<lparr>player.currentBet := 0\<rparr>) (players state),
                                   currentBet := 0,
                                   minBet := BIG_BLIND,
                                   currentPlayerIndex := firstActor,
                                   lastRaiserIndex := Some firstActor,
                                   roundLog := roundLog state
                                     @ [''--- '' @ phase_str nextGamePhase @ '' ---'']\<rparr>)))))))"

declare nextPhase.simps [code]

subsection \<open>nextTurn\<close>

text \<open>
  The seat scan of \<open>nextTurn\<close>:
  \<open>while ((!players[nextIndex].isActive || players[nextIndex].isAllIn) && loopCount < players.length)\<close>.
\<close>

function nextSeatScan :: "player list \<Rightarrow> int \<Rightarrow> nat \<Rightarrow> engine_error + (int \<times> nat)" where
  "nextSeatScan ps nextIndex loopCount =
     (case seatOf ps nextIndex of Inl e \<Rightarrow> Inl e
      | Inr p \<Rightarrow>
          (if (\<not> isActive p \<or> isAllIn p) \<and> loopCount < length ps
           then nextSeatScan ps (jsRem (nextIndex + 1) (int (length ps))) (loopCount + 1)
           else Inr (nextIndex, loopCount)))"
  by pat_completeness auto
termination
  by (relation "measure (\<lambda>(ps, i, k). length ps - k)") auto

declare nextSeatScan.simps [simp del]

definition nextTurn :: "string \<Rightarrow> game_state \<Rightarrow> (engine_error + game_state) option" where
  "nextTurn now state =
     (if players state = [] then Some (Inl (Js TypeError))
      else
        (case nextSeatScan (players state)
                (jsRem (currentPlayerIndex state + 1) (int (length (players state)))) 0 of
           Inl e \<Rightarrow> Some (Inl e)
         | Inr (nextIndex, loopCount) \<Rightarrow>
             (if loopCount \<ge> length (players state) then nextPhase now state
              else
                (case seatOf (players state) nextIndex of Inl e \<Rightarrow> Some (Inl e)
                 | Inr playerToAct \<Rightarrow>
                     (let isBetMatched = (player.currentBet playerToAct = currentBet state);
                          endPhase = (lastRaiserIndex state = Some nextIndex \<and> isBetMatched)
                      in
                      if endPhase then nextPhase now state
                      else Some (Inr (state\<lparr>currentPlayerIndex := nextIndex\<rparr>)))))))"

text \<open>
  The turn rule in the words of the specification: a seat can act when it is active and
  not all-in, and the seat to act next is the first such seat met going round the table
  from the seat after the current one, for one full lap.
\<close>

definition canAct :: "player \<Rightarrow> bool" where
  "canAct p = (isActive p \<and> \<not> isAllIn p)"

definition spec_nextSeat :: "player list \<Rightarrow> int \<Rightarrow> int option" where
  "spec_nextSeat ps cur =
     List.find (\<lambda>i. canAct (ps ! nat i))
       (map (\<lambda>j. (cur + 1 + int j) mod int (length ps)) [0..<length ps])"

text \<open>The chips on the table: all stacks and the pot.\<close>

definition totalChips :: "player list \<Rightarrow> int" where
  "totalChips ps = sum_list (map chips ps)"

section \<open>Auxiliary definitions for the properties\<close>

text \<open>The score the evaluator gives a seat's hand against the board.\<close>

definition handScore :: "card list \<Rightarrow> player \<Rightarrow> int" where
  "handScore community p = (case evaluateHand (hand p) community of Inr r \<Rightarrow> score r | Inl e \<Rightarrow> 0)"

text \<open>Concrete seats and tables, in the manner of the seat literals of the test suite.\<close>

definition mkSeat :: "string \<Rightarrow> int \<Rightarrow> bool \<Rightarrow> card list \<Rightarrow> player" where
  "mkSeat i c a h = \<lparr>player_id = i, name = i, chips = c, hand = h, isHuman = False, isActive = a,
     isAllIn = False, currentBet = 0, position = ''EP'', personality = None, avatarSeed = None,
     actionMessage = None\<rparr>"

definition mkTable :: "GamePhase \<Rightarrow> player list \<Rightarrow> int \<Rightarrow> card list \<Rightarrow> game_state" where
  "mkTable ph ps potAmount community = \<lparr>phase = ph, pot = potAmount, communityCards = community,
     deck = [], players = ps, currentPlayerIndex = 0, dealerIndex = 0, minBet = BIG_BLIND,
     currentBet = 0, lastRaiserIndex = Some 0, roundLog = [], deckColor = ''blue'', winners = [],
     winningHandDesc = [], lastPotSize = 0, handHistory = [], handCount = 1\<rparr>"

text \<open>
  A river with an ace-high straight on the board. Seats a, b and c play the board and
  tie; seat d has folded. The pot of 100 is not a multiple of three.
\<close>

definition boardStraight :: "card list" where
  "boardStraight = [mkCard ACE SPADES, mkCard KING HEARTS, mkCard QUEEN DIAMONDS,
                    mkCard JACK CLUBS, mkCard TEN SPADES]"

definition splitSeats :: "player list" where
  "splitSeats = [mkSeat ''a'' 970 True [mkCard TWO HEARTS, mkCard THREE DIAMONDS],
                 mkSeat ''b'' 970 True [mkCard TWO DIAMONDS, mkCard THREE CLUBS],
                 mkSeat ''c'' 970 True [mkCard TWO CLUBS, mkCard THREE SPADES],
                 mkSeat ''d'' 990 False [mkCard SEVEN CLUBS, mkCard FOUR HEARTS]]"

definition splitTable :: game_state where
  "splitTable = mkTable RIVER splitSeats 100 boardStraight"

definition splitTableAfter :: game_state where
  "splitTableAfter = splitTable\<lparr>
     players := [mkSeat ''a'' 1003 True [mkCard TWO HEARTS, mkCard THREE DIAMONDS],
                 mkSeat ''b'' 1003 True [mkCard TWO DIAMONDS, mkCard THREE CLUBS],
                 mkSeat ''c'' 1003 True [mkCard TWO CLUBS, mkCard THREE SPADES],
                 mkSeat ''d'' 990 False [mkCard SEVEN CLUBS, mkCard FOUR HEARTS]],
     phase := SHOWDOWN, pot := 0, lastPotSize := 100,
     winners := [mkSeat ''a'' 970 True [mkCard TWO HEARTS, mkCard THREE DIAMONDS],
                 mkSeat ''b'' 970 True [mkCard TWO DIAMONDS, mkCard THREE CLUBS],
                 mkSeat ''c'' 970 True [mkCard TWO CLUBS, mkCard THREE SPADES]],
     winningHandDesc := ''Straight'',
     roundLog := [''Showdown! Winner: a, b, c (Straight)''],
     handHistory := [\<lparr>entry_id = ''hand_1'', handNumber = 1, winnerNames = [''a'', ''b'', ''c''],
                      winAmount = 100, winningHand = ''Straight'', date = ''12:00''\<rparr>]\<rparr>"

text \<open>A river table before a bet of 30 by seat a, and the state after it.\<close>

definition betSeats :: "player list" where
  "betSeats = [mkSeat ''a'' 970 True [mkCard TWO HEARTS, mkCard THREE DIAMONDS],
               mkSeat ''b'' 20 True [mkCard TWO DIAMONDS, mkCard THREE CLUBS]]"

definition betTable :: game_state where
  "betTable = mkTable RIVER betSeats 40 boardStraight"

definition betTableAfter :: game_state where
  "betTableAfter = betTable\<lparr>
     players := [(mkSeat ''a'' 940 True [mkCard TWO HEARTS, mkCard THREE DIAMONDS])
                   \<lparr>player.currentBet := 30, actionMessage := Some ''Bets 30''\<rparr>,
                 mkSeat ''b'' 20 True [mkCard TWO DIAMONDS, mkCard THREE CLUBS]],
     pot := 70, currentBet := 30, minBet := 30, lastRaiserIndex := Some 0,
     roundLog := [''a bets 30'']\<rparr>"

text \<open>
  Three seats of which the middle one is out of chips, so that exactly two seats hold
  chips; the button was on seat 2 and moves to seat 0.
\<close>

definition bustedSeats :: "player list" where
  "bustedSeats = [mkSeat ''a'' 1000 True [], mkSeat ''b'' 0 True [], mkSeat ''c'' 500 True []]"

definition bustedTableAfter :: game_state where
  "bustedTableAfter = \<lparr>phase = PRE_FLOP, pot = 10, communityCards = [],
     deck = take 48 createDeck,
     players = [(mkSeat ''a'' 990 True [mkCard ACE SPADES, mkCard KING SPADES])\<lparr>player.currentBet := 10\<rparr>,
                (mkSeat ''b'' 0 False [])\<lparr>isAllIn := True\<rparr>,
                mkSeat ''c'' 500 True [mkCard QUEEN SPADES, mkCard JACK SPADES]],
     currentPlayerIndex = 2, dealerIndex = 0, minBet = 20, currentBet = 20,
     lastRaiserIndex = Some 1, roundLog = [''Hand #1 Started''], deckColor = ''blue'',
     winners = [], winningHandDesc = [], lastPotSize = 0, handHistory = [], handCount = 1\<rparr>"

text \<open>Four seats with the turn on seat 0; seat 1 has folded and seat 2 is all-in.\<close>

definition turnSeats :: "player list" where
  "turnSeats = [mkSeat ''a'' 900 True [], mkSeat ''b'' 900 False [],
                (mkSeat ''c'' 0 True [])\<lparr>isAllIn := True\<rparr>, mkSeat ''d'' 900 True []]"

definition turnTable :: game_state where
  "turnTable = mkTable FLOP turnSeats 300 []"

text \<open>A river table on which every seat has folded.\<close>

definition foldedTable :: game_state where
  "foldedTable = mkTable RIVER
     [mkSeat ''a'' 990 False [mkCard TWO HEARTS, mkCard THREE DIAMONDS],
      mkSeat ''b'' 980 False [mkCard TWO DIAMONDS, mkCard THREE CLUBS]] 30 boardStraight"

text \<open>
  The river after seat a has bet 30 (\<open>betTableAfter\<close>), the turn has passed to seat b
  and seat b has folded: the driver marks the seat inactive and logs the fold.
\<close>

definition riverFoldTable :: game_state where
  "riverFoldTable = betTableAfter\<lparr>
     players := [(mkSeat ''a'' 940 True [mkCard TWO HEARTS, mkCard THREE DIAMONDS])
                   \<lparr>player.currentBet := 30, actionMessage := Some ''Bets 30''\<rparr>,
                 (mkSeat ''b'' 20 False [mkCard TWO DIAMONDS, mkCard THREE CLUBS])
                   \<lparr>actionMessage := Some ''Fold''\<rparr>],
     currentPlayerIndex := 1,
     roundLog := [''a bets 30'', ''b folds'']\<rparr>"

text \<open>The state after the showdown of that river: seat a, the only active seat, takes the pot.\<close>

definition riverFoldAfter :: game_state where
  "riverFoldAfter = riverFoldTable\<lparr>
     players := [(mkSeat ''a'' 1010 True [mkCard TWO HEARTS, mkCard THREE DIAMONDS])
                   \<lparr>actionMessage := Some ''Bets 30''\<rparr>,
                 (mkSeat ''b'' 20 False [mkCard TWO DIAMONDS, mkCard THREE CLUBS])
                   \<lparr>actionMessage := Some ''Fold''\<rparr>],
     phase := SHOWDOWN, pot := 0, lastPotSize := 70,
     winners := [(mkSeat ''a'' 940 True [mkCard TWO HEARTS, mkCard THREE DIAMONDS])
                   \<lparr>actionMessage := Some ''Bets 30''\<rparr>],
     winningHandDesc := ''Straight'',
     roundLog := [''a bets 30'', ''b folds'', ''Showdown! Winner: a (Straight)''],
     handHistory := [\<lparr>entry_id = ''hand_1'', handNumber = 1, winnerNames = [''a''],
                      winAmount = 70, winningHand = ''Straight'', date = ''12:00''\<rparr>]\<rparr>"

text \<open>
  The flop of \<open>turnTable\<close> once both seats that can act have checked: seat d opened
  the round and is to act next, and four cards are left in the deck.
\<close>

definition closedTable :: game_state where
  "closedTable = turnTable\<lparr>
     deck := [mkCard TWO CLUBS, mkCard NINE HEARTS, mkCard FIVE SPADES, mkCard KING DIAMONDS],
     lastRaiserIndex := Some 3\<rparr>"

section \<open>Standard hand strength, for comparison\<close>

text \<open>
  The order the specification measures the evaluator against is "standard poker hand
  strength (class first, then tie-break ranks/kickers)". For a hand of exactly five cards
  that order is: straight flush, four of a kind, full house, flush, straight, three of a
  kind, two pair, pair, high card; within a class the ranks are compared in order of
  multiplicity and then of rank, the five-high straight counting its ace low. The
  definitions below follow these words, not the source.
\<close>

definition std_groups :: "int list \<Rightarrow> int list" where
  "std_groups vs = sort_key (\<lambda>v. - (int (count_list vs v) * 100 + v)) (remdups vs)"

definition std_is_flush :: "card list \<Rightarrow> bool" where
  "std_is_flush cs = (length (remdups (map suit cs)) = 1)"

definition std_is_straight :: "int list \<Rightarrow> bool" where
  "std_is_straight vs =
     (let g = std_groups vs in length g = 5 \<and> (hd g - last g = 4 \<or> g = [14, 5, 4, 3, 2]))"

definition std_category :: "card list \<Rightarrow> nat" where
  "std_category cs =
     (let vs = map getCardValue cs;
          pattern = map (count_list vs) (std_groups vs)
      in if std_is_straight vs \<and> std_is_flush cs then 8
         else if pattern = [4, 1] then 7
         else if pattern = [3, 2] then 6
         else if std_is_flush cs then 5
         else if std_is_straight vs then 4
         else if pattern = [3, 1, 1] then 3
         else if pattern = [2, 2, 1] then 2
         else if pattern = [2, 1, 1, 1] then 1
         else 0)"

definition std_tiebreak :: "card list \<Rightarrow> int list" where
  "std_tiebreak cs =
     (let g = std_groups (map getCardValue cs)
      in if g = [14, 5, 4, 3, 2] then [5, 4, 3, 2, 1] else g)"

fun lex_less :: "int list \<Rightarrow> int list \<Rightarrow> bool" where
  "lex_less (x # xs) (y # ys) = (x < y \<or> (x = y \<and> lex_less xs ys))"
| "lex_less xs ys = False"

text \<open>\<open>std_weaker a b\<close>: the five-card hand \<open>a\<close> is strictly weaker than \<open>b\<close>.\<close>

definition std_weaker :: "card list \<Rightarrow> card list \<Rightarrow> bool" where
  "std_weaker a b =
     (std_category a < std_category b
      \<or> (std_category a = std_category b \<and> lex_less (std_tiebreak a) (std_tiebreak b)))"







section \<open>Properties of the hand evaluator\<close>

subsection \<open>Frequency tables and the straight scan\<close>

lemma tally_snoc: "tally (xs @ [x]) = AList.update x ((case map_of (tally xs) x of None \<Rightarrow> 0 | Some n \<Rightarrow> n) + 1) (tally xs)"
  by (simp add: tally_def)

lemma map_of_tally: "map_of (tally xs) x = (if x \<in> set xs then Some (int (count_list xs x)) else None)"
proof (induction xs arbitrary: x rule: rev_induct)
  case Nil
  show ?case by (simp add: tally_def)
next
  case (snoc y ys)
  show ?case by (simp add: tally_snoc update_conv' snoc)
qed

lemma uniqueInOrder_snoc: "uniqueInOrder (xs @ [x]) = (if x \<in> set (uniqueInOrder xs) then uniqueInOrder xs else uniqueInOrder xs @ [x])"
  by (simp add: uniqueInOrder_def)

lemma keys_tally: "map fst (tally xs) = uniqueInOrder xs"
proof (induction xs rule: rev_induct)
  case Nil
  show ?case by (simp add: tally_def uniqueInOrder_def)
next
  case (snoc y ys)
  show ?case by (simp add: tally_snoc update_keys uniqueInOrder_snoc snoc)
qed

lemma set_uniqueInOrder: "set (uniqueInOrder xs) = set xs"
  by (induction xs rule: rev_induct) (auto simp: uniqueInOrder_snoc uniqueInOrder_def)

lemma distinct_uniqueInOrder: "distinct (uniqueInOrder xs)"
  by (induction xs rule: rev_induct) (auto simp: uniqueInOrder_snoc uniqueInOrder_def)

lemma straightScan_ok:
  "consecutive \<le> int i \<Longrightarrow> \<exists>h. straightScan us i consecutive sh = Inr h \<and> (h = sh \<or> h \<in> set us)"
proof (induction us i consecutive sh rule: straightScan.induct)
  case (1 us i consecutive straightHigh)
  show ?case
  proof (cases "int i < int (length us) - 1")
    case False
    then show ?thesis by (subst straightScan.simps) simp
  next
    case True
    then have a: "readAt us (int i) = Inr (us ! i)" and b: "readAt us (int i + 1) = Inr (us ! (i + 1))"
      by (auto simp: readAt_def nat_add_distrib)
    show ?thesis
    proof (cases "us ! i - us ! (i + 1) = 1")
      case False
      with True a b "1.IH"(3)[of "us ! i" "us ! (i+1)"] show ?thesis
        by (subst straightScan.simps) auto
    next
      case step: True
      show ?thesis
      proof (cases "consecutive + 1 \<ge> 4")
        case False
        with True a b step "1.IH"(2)[of "us ! i" "us ! (i+1)"] "1.prems" show ?thesis
          by (subst straightScan.simps) auto
      next
        case c4: True
        with "1.prems" True have h: "readAt us (int i - 3) = Inr (us ! (i - 3))" and i3: "i - 3 < length us"
          by (auto simp: readAt_def nat_diff_distrib)
        from "1.IH"(1)[of "us ! i" "us ! (i+1)" "us ! (i - 3)"] True a b step c4 h "1.prems"
        have "\<exists>h'. straightScan us (i + 1) (consecutive + 1) (us ! (i - 3)) = Inr h'
              \<and> (h' = us ! (i - 3) \<or> h' \<in> set us)" by auto
        with True a b step c4 h i3 show ?thesis
          by (subst straightScan.simps) auto
      qed
    qed
  qed
qed

subsection \<open>Every evaluation returns, with a score in the band of its class\<close>

lemma readAt_0: "xs \<noteq> [] \<Longrightarrow> readAt xs 0 = Inr (hd xs)"
  by (cases xs) (simp_all add: readAt_def)

lemma readAt_1: "2 \<le> length xs \<Longrightarrow> readAt xs 1 = Inr (xs ! 1)"
  by (simp add: readAt_def)

lemma foldl_fullHouseStep:
  "foldl (fullHouseStep counts) (a, b) xs = (t, w) \<Longrightarrow> (t = a \<or> t \<in> set xs) \<and> (w = b \<or> w \<in> set xs)"
proof (induction xs arbitrary: a b)
  case Nil
  then show ?case by simp
next
  case (Cons x xs)
  obtain a' b' where st: "fullHouseStep counts (a, b) x = (a', b')" by (cases "fullHouseStep counts (a, b) x")
  then have ab: "(a' = a \<or> a' = x) \<and> (b' = b \<or> b' = x)"
    by (auto simp: fullHouseStep_def split: if_splits)
  from Cons.prems st have "foldl (fullHouseStep counts) (a', b') xs = (t, w)" by simp
  from Cons.IH[OF this] ab show ?case by auto
qed

lemma threeAndTwo_mem:
  "threeAndTwo counts dv = (t, w) \<Longrightarrow> (t = 0 \<or> t \<in> set dv) \<and> (w = 0 \<or> w \<in> set dv)"
  unfolding threeAndTwo_def by (rule foldl_fullHouseStep)

lemma detectHand_band:
  assumes vs: "values \<noteq> []" "\<forall>v\<in>set values. 2 \<le> v \<and> v \<le> 14"
    and dv: "set dv \<subseteq> set values"
    and fl: "isFlush \<longrightarrow> flushCards \<noteq> [] \<and> set flushCards \<subseteq> set values"
    and sh: "sh = 0 \<or> (2 \<le> sh \<and> sh \<le> 14)"
  shows "\<exists>r. detectHand values counts dv isFlush flushCards sh = Inr r \<and> inBand r"
proof -
  let ?D = "detectHand values counts dv isFlush flushCards sh"
  have fin: "\<And>s d. ?D = Inr \<lparr>score = s, description = d\<rparr> \<Longrightarrow> inBand \<lparr>score = s, description = d\<rparr> \<Longrightarrow> ?thesis"
    by blast
  show ?thesis
  proof (cases "List.find (\<lambda>v. map_of counts v = Some 4) dv")
    case (Some v)
    then have "v \<in> set dv" by (auto simp: find_Some_iff)
    with dv vs have b: "2 \<le> v \<and> v \<le> 14" by auto
    show ?thesis
    proof (rule fin)
      show "?D = Inr \<lparr>score = 7000 + v, description = ''Four of a Kind''\<rparr>"
        using Some by (simp add: detectHand_def)
      show "inBand \<lparr>score = 7000 + v, description = ''Four of a Kind''\<rparr>"
        using b by (simp add: inBand_def classBand_def)
    qed
  next
    case None
    obtain t w where tw: "threeAndTwo counts dv = (t, w)" by (cases "threeAndTwo counts dv")
    from threeAndTwo_mem[OF tw] dv vs
    have t: "t = 0 \<or> (2 \<le> t \<and> t \<le> 14)" and w: "w = 0 \<or> (2 \<le> w \<and> w \<le> 14)" by auto
    let ?pairs = "filter (\<lambda>v. map_of counts v = Some 2) dv"
    have pr: "\<forall>p\<in>set ?pairs. 2 \<le> p \<and> p \<le> 14" using dv vs by auto
    show ?thesis
    proof (cases "t \<noteq> 0 \<and> w \<noteq> 0")
      case True
      show ?thesis
      proof (rule fin)
        show "?D = Inr \<lparr>score = 6000 + t * 10 + w, description = ''Full House''\<rparr>"
          using None tw True by (simp add: detectHand_def)
        show "inBand \<lparr>score = 6000 + t * 10 + w, description = ''Full House''\<rparr>"
          using True t w by (simp add: inBand_def classBand_def)
      qed
    next
      case nfh: False
      show ?thesis
      proof (cases isFlush)
        case True
        with fl have ne: "flushCards \<noteq> []" and "hd flushCards \<in> set values" by auto
        with vs have b: "2 \<le> hd flushCards \<and> hd flushCards \<le> 14" by auto
        show ?thesis
        proof (rule fin)
          show "?D = Inr \<lparr>score = 5000 + hd flushCards, description = ''Flush''\<rparr>"
            using None tw nfh True readAt_0[OF ne] by (simp add: detectHand_def)
          show "inBand \<lparr>score = 5000 + hd flushCards, description = ''Flush''\<rparr>"
            using b by (simp add: inBand_def classBand_def)
        qed
      next
        case nf: False
        show ?thesis
        proof (cases "sh \<noteq> 0")
          case True
          show ?thesis
          proof (rule fin)
            show "?D = Inr \<lparr>score = 4000 + sh, description = ''Straight''\<rparr>"
              using None tw nfh nf True by (simp add: detectHand_def)
            show "inBand \<lparr>score = 4000 + sh, description = ''Straight''\<rparr>"
              using True sh by (simp add: inBand_def classBand_def)
          qed
        next
          case ns: False
          show ?thesis
          proof (cases "t \<noteq> 0")
            case True
            show ?thesis
            proof (rule fin)
              show "?D = Inr \<lparr>score = 3000 + t, description = ''Three of a Kind''\<rparr>"
                using None tw nfh nf ns True by (simp add: detectHand_def)
              show "inBand \<lparr>score = 3000 + t, description = ''Three of a Kind''\<rparr>"
                using True t by (simp add: inBand_def classBand_def)
            qed
          next
            case nt: False
            show ?thesis
            proof (cases "2 \<le> length ?pairs")
              case True
              then have ne: "?pairs \<noteq> []" by auto
              from True have "hd ?pairs \<in> set ?pairs" "?pairs ! 1 \<in> set ?pairs"
                using ne by (auto intro: nth_mem hd_in_set simp del: set_filter)
              with pr have b: "2 \<le> hd ?pairs \<and> hd ?pairs \<le> 14" "2 \<le> ?pairs ! 1 \<and> ?pairs ! 1 \<le> 14"
                by blast+
              show ?thesis
              proof (rule fin)
                show "?D = Inr \<lparr>score = 2000 + hd ?pairs * 10 + ?pairs ! 1, description = ''Two Pair''\<rparr>"
                  using None tw nfh nf ns nt True readAt_0[OF ne] readAt_1[OF True]
                  by (simp add: detectHand_def Let_def)
                show "inBand \<lparr>score = 2000 + hd ?pairs * 10 + ?pairs ! 1, description = ''Two Pair''\<rparr>"
                  using b by (simp add: inBand_def classBand_def)
              qed
            next
              case n2: False
              show ?thesis
              proof (cases "length ?pairs = 1")
                case True
                then have ne: "?pairs \<noteq> []" by auto
                then have "hd ?pairs \<in> set ?pairs" by (rule hd_in_set)
                with pr have b: "2 \<le> hd ?pairs \<and> hd ?pairs \<le> 14" by blast
                show ?thesis
                proof (rule fin)
                  show "?D = Inr \<lparr>score = 1000 + hd ?pairs, description = ''Pair''\<rparr>"
                    using None tw nfh nf ns nt n2 True readAt_0[OF ne]
                    by (simp add: detectHand_def Let_def)
                  show "inBand \<lparr>score = 1000 + hd ?pairs, description = ''Pair''\<rparr>"
                    using b by (simp add: inBand_def classBand_def)
                qed
              next
                case False
                from vs have b: "2 \<le> hd values \<and> hd values \<le> 14" by auto
                show ?thesis
                proof (rule fin)
                  show "?D = Inr \<lparr>score = hd values, description = ''High Card''\<rparr>"
                    using None tw nfh nf ns nt n2 False readAt_0[OF vs(1)]
                    by (simp add: detectHand_def Let_def)
                  show "inBand \<lparr>score = hd values, description = ''High Card''\<rparr>"
                    using b by (simp add: inBand_def classBand_def)
                qed
              qed
            qed
          qed
        qed
      qed
    qed
  qed
qed

lemma RANK_VALUE_range: "2 \<le> RANK_VALUE r \<and> RANK_VALUE r \<le> 14"
  by (cases r) simp_all

lemma getCardValue_range: "2 \<le> getCardValue c \<and> getCardValue c \<le> 14"
  by (simp add: getCardValue_def RANK_VALUE_range)

lemma straightHighOf_ok:
  "\<exists>h. straightHighOf us = Inr h \<and> (h = 0 \<or> h = 5 \<or> h \<in> set us)"
proof -
  from straightScan_ok[of 0 0 us 0] obtain h where
    "straightScan us 0 0 0 = Inr h" "h = 0 \<or> h \<in> set us" by auto
  then show ?thesis by (auto simp: straightHighOf_def)
qed

lemma flushSuitOf_mem: "flushSuitOf suits = Some fs \<Longrightarrow> fs \<in> set suits"
proof -
  assume "flushSuitOf suits = Some fs"
  then have "fs \<in> set (map fst (tally suits))"
    unfolding flushSuitOf_def Let_def find_Some_iff by (metis nth_mem)
  then show ?thesis by (simp only: keys_tally set_uniqueInOrder)
qed

lemma set_sortByValueDesc: "set (sortByValueDesc cs) = set cs"
  by (simp add: sortByValueDesc_def)

lemma evaluateHand_band: "\<exists>r. evaluateHand h c = Inr r \<and> inBand r"
proof (cases "h @ c = []")
  case True
  then show ?thesis by (simp add: evaluateHand_def inBand_def classBand_def)
next
  case False
  let ?all = "sortByValueDesc (h @ c)"
  let ?vals = "map getCardValue ?all"
  let ?fs = "flushSuitOf (map suit ?all)"
  let ?fc = "case ?fs of None \<Rightarrow> [] | Some fs \<Rightarrow> map getCardValue (filter (\<lambda>c. suit c = fs) ?all)"
  let ?dv = "sort_key (\<lambda>v. - v) (map fst (tally ?vals))"
  from False have ne: "?vals \<noteq> []"
    by (metis False Nil_is_map_conv set_empty set_sortByValueDesc)
  have rng: "\<forall>v\<in>set ?vals. 2 \<le> v \<and> v \<le> 14" by (auto simp: getCardValue_range)
  obtain sh where sh: "straightHighOf (uniqueInOrder ?vals) = Inr sh"
      "sh = 0 \<or> sh = 5 \<or> sh \<in> set (uniqueInOrder ?vals)"
    using straightHighOf_ok by blast
  from sh(2) rng have shr: "sh = 0 \<or> (2 \<le> sh \<and> sh \<le> 14)"
    unfolding set_uniqueInOrder by auto
  have dv: "set ?dv \<subseteq> set ?vals" by (simp add: keys_tally set_uniqueInOrder)
  have fl: "(?fs \<noteq> None) \<longrightarrow> ?fc \<noteq> [] \<and> set ?fc \<subseteq> set ?vals"
  proof
    assume "?fs \<noteq> None"
    then obtain fs where fs: "?fs = Some fs" by auto
    from flushSuitOf_mem[OF fs] have "filter (\<lambda>c. suit c = fs) ?all \<noteq> []"
      by (auto simp: filter_empty_conv)
    with fs show "?fc \<noteq> [] \<and> set ?fc \<subseteq> set ?vals" by auto
  qed
  from detectHand_band[OF ne rng dv fl shr, of "tally ?vals"]
  obtain r where "detectHand ?vals (tally ?vals) ?dv (?fs \<noteq> None) ?fc sh = Inr r" "inBand r"
    by blast
  with False sh(1) show ?thesis by (auto simp: evaluateHand_def Let_def)
qed

text \<open>
  C10: \<open>evaluateHand\<close> is total. With no card at all it returns score 0 and the
  description "Waiting"; for every pair of card lists, of any length, it returns a
  result, so none of its indexed reads (\<open>uniqueSorted[i]\<close>, \<open>uniqueSorted[i + 1]\<close>,
  \<open>uniqueSorted[i - 3]\<close>, \<open>flushCards[0]\<close>, \<open>pairs[0]\<close>, \<open>pairs[1]\<close>, \<open>values[0]\<close>)
  is out of bounds.
\<close>

theorem evaluateHand_total:
  "evaluateHand [] [] = Inr \<lparr>score = 0, description = ''Waiting''\<rparr>
   \<and> (\<exists>r. evaluateHand hole community = Inr r)"
proof
  show "evaluateHand [] [] = Inr \<lparr>score = 0, description = ''Waiting''\<rparr>"
    by (simp add: evaluateHand_def)
  from evaluateHand_band[of hole community]
  show "\<exists>r. evaluateHand hole community = Inr r" by blast
qed

subsection \<open>Class ordering\<close>

lemma inBand_bounds:
  "inBand r \<Longrightarrow> classBand (description r) = Some (lo, hi) \<Longrightarrow> lo \<le> score r \<and> score r \<le> hi"
  by (simp add: inBand_def)

lemma classBand_values:
  "classBand ''Four of a Kind'' = Some (7002, 7014)"
  "classBand ''Full House'' = Some (6022, 6154)"
  "classBand ''Flush'' = Some (5002, 5014)"
  "classBand ''Straight'' = Some (4002, 4014)"
  "classBand ''Three of a Kind'' = Some (3002, 3014)"
  "classBand ''Two Pair'' = Some (2022, 2154)"
  "classBand ''Pair'' = Some (1002, 1014)"
  "classBand ''High Card'' = Some (2, 14)"
  by (simp_all add: classBand_def)

lemma band_above:
  assumes "inBand r1" "inBand r2"
    and "classBand (description r1) = Some (lo1, hi1)" "classBand (description r2) = Some (lo2, hi2)"
    and "hi2 < lo1"
  shows "score r2 < score r1"
  using inBand_bounds[OF assms(1,3)] inBand_bounds[OF assms(2,4)] assms(5) by linarith

text \<open>
  C4: strict class ordering. For any two evaluations, a Four of a Kind scores above a
  Full House, a Full House above a Flush, a Flush above a Straight, a Straight above a
  Three of a Kind, a Three of a Kind above a Two Pair, a Two Pair above a Pair, and a
  Pair above a High Card.
\<close>

theorem class_ordering:
  assumes "evaluateHand h1 c1 = Inr r1" and "evaluateHand h2 c2 = Inr r2"
  shows "(description r1 = ''Four of a Kind'' \<and> description r2 = ''Full House'' \<longrightarrow> score r2 < score r1)
       \<and> (description r1 = ''Full House'' \<and> description r2 = ''Flush'' \<longrightarrow> score r2 < score r1)
       \<and> (description r1 = ''Flush'' \<and> description r2 = ''Straight'' \<longrightarrow> score r2 < score r1)
       \<and> (description r1 = ''Straight'' \<and> description r2 = ''Three of a Kind'' \<longrightarrow> score r2 < score r1)
       \<and> (description r1 = ''Three of a Kind'' \<and> description r2 = ''Two Pair'' \<longrightarrow> score r2 < score r1)
       \<and> (description r1 = ''Two Pair'' \<and> description r2 = ''Pair'' \<longrightarrow> score r2 < score r1)
       \<and> (description r1 = ''Pair'' \<and> description r2 = ''High Card'' \<longrightarrow> score r2 < score r1)"
proof -
  from evaluateHand_band[of h1 c1] assms(1) have b1: "inBand r1" by simp
  from evaluateHand_band[of h2 c2] assms(2) have b2: "inBand r2" by simp
  have step: "\<And>d1 d2 lo1 hi1 lo2 hi2. classBand d1 = Some (lo1, hi1) \<Longrightarrow> classBand d2 = Some (lo2, hi2)
      \<Longrightarrow> hi2 < lo1 \<Longrightarrow> description r1 = d1 \<and> description r2 = d2 \<longrightarrow> score r2 < score r1"
    using band_above[OF b1 b2] by blast
  show ?thesis
    by (intro conjI step[OF classBand_values(1) classBand_values(2)]
        step[OF classBand_values(2) classBand_values(3)]
        step[OF classBand_values(3) classBand_values(4)]
        step[OF classBand_values(4) classBand_values(5)]
        step[OF classBand_values(5) classBand_values(6)]
        step[OF classBand_values(6) classBand_values(7)]
        step[OF classBand_values(7) classBand_values(8)]) simp_all
qed

theorem class_ordering_witness:
  "evaluateHand [mkCard FIVE HEARTS, mkCard FIVE CLUBS] [mkCard FIVE SPADES, mkCard FIVE DIAMONDS, mkCard KING HEARTS]
     = Inr \<lparr>score = 7005, description = ''Four of a Kind''\<rparr>
   \<and> evaluateHand [mkCard KING HEARTS, mkCard KING CLUBS]
        [mkCard FIVE HEARTS, mkCard FIVE CLUBS, mkCard FIVE SPADES, mkCard TWO SPADES, mkCard THREE CLUBS]
     = Inr \<lparr>score = 6063, description = ''Full House''\<rparr>
   \<and> score \<lparr>score = 6063, description = ''Full House''\<rparr> < score \<lparr>score = 7005, description = ''Four of a Kind''\<rparr>"
proof -
  have e1: "evaluateHand [mkCard FIVE HEARTS, mkCard FIVE CLUBS] [mkCard FIVE SPADES, mkCard FIVE DIAMONDS, mkCard KING HEARTS]
     = Inr \<lparr>score = 7005, description = ''Four of a Kind''\<rparr>" by code_simp
  have e2: "evaluateHand [mkCard KING HEARTS, mkCard KING CLUBS]
        [mkCard FIVE HEARTS, mkCard FIVE CLUBS, mkCard FIVE SPADES, mkCard TWO SPADES, mkCard THREE CLUBS]
     = Inr \<lparr>score = 6063, description = ''Full House''\<rparr>" by code_simp
  from class_ordering[OF e1 e2] e1 e2 show ?thesis by simp
qed

subsection \<open>Independence of the order of the cards\<close>

lemma sorted_values_mset:
  assumes "mset cs' = mset cs"
  shows "map getCardValue (sortByValueDesc cs') = map getCardValue (sortByValueDesc cs)"
proof -
  let ?k = "\<lambda>c. - getCardValue c"
  have key: "\<And>xs. map ?k (sort_key ?k xs) = sort (map ?k xs)"
    by (rule properties_for_sort[symmetric]) simp_all
  have "sort (map ?k cs') = sort (map ?k cs)"
    by (rule properties_for_sort) (simp_all add: assms)
  then have "map ?k (sort_key ?k cs') = map ?k (sort_key ?k cs)" by (simp only: key)
  then have "map uminus (map ?k (sort_key ?k cs')) = map uminus (map ?k (sort_key ?k cs))" by simp
  then show ?thesis by (simp add: sortByValueDesc_def o_def)
qed

lemma find_snoc:
  "List.find P (xs @ [x]) = (case List.find P xs of Some y \<Rightarrow> Some y | None \<Rightarrow> if P x then Some x else None)"
  by (induction xs) simp_all

lemma find_uniqueInOrder: "List.find P (uniqueInOrder xs) = List.find P xs"
proof (induction xs rule: rev_induct)
  case Nil
  show ?case by (simp add: uniqueInOrder_def)
next
  case (snoc x xs)
  show ?case
  proof (cases "x \<in> set (uniqueInOrder xs)")
    case True
    then have "x \<in> set xs" by (simp add: set_uniqueInOrder)
    then have "List.find P xs = None \<Longrightarrow> \<not> P x" by (auto simp: find_None_iff)
    with True snoc show ?thesis
      by (auto simp: uniqueInOrder_snoc find_snoc split: option.splits)
  next
    case False
    with snoc show ?thesis by (simp add: uniqueInOrder_snoc find_snoc)
  qed
qed

lemma find_map_comp: "List.find P (map f xs) = map_option f (List.find (\<lambda>x. P (f x)) xs)"
  by (induction xs) simp_all

lemma flushSuitOf_find:
  "flushSuitOf suits = List.find (\<lambda>s. 5 \<le> count_list suits s) suits"
proof -
  have "flushSuitOf suits
      = List.find (\<lambda>s. case map_of (tally suits) s of None \<Rightarrow> False | Some n \<Rightarrow> 5 \<le> n) suits"
    by (simp add: flushSuitOf_def keys_tally find_uniqueInOrder)
  also have "\<dots> = List.find (\<lambda>s. 5 \<le> count_list suits s) suits"
    by (rule find_cong) (simp_all add: map_of_tally)
  finally show ?thesis .
qed

lemma find_first_of_class:
  "List.find (\<lambda>c. Q (f c)) xs = Some c0 \<Longrightarrow>
     hd (filter (\<lambda>c. f c = f c0) xs) = c0 \<and> hd (filter (\<lambda>c. Q (f c)) xs) = c0"
proof (induction xs)
  case Nil
  then show ?case by simp
next
  case (Cons x xs)
  show ?case
  proof (cases "Q (f x)")
    case True
    with Cons.prems show ?thesis by simp
  next
    case False
    with Cons.prems have f: "List.find (\<lambda>c. Q (f c)) xs = Some c0" by simp
    then have "Q (f c0)" by (auto simp: find_Some_iff)
    with False have "f x \<noteq> f c0" by auto
    with False Cons.IH[OF f] show ?thesis by simp
  qed
qed

text \<open>The flush outcome, as a function of the cards alone.\<close>

lemma flush_outcome:
  fixes cs :: "card list"
  defines "Qf \<equiv> (\<lambda>c. 5 \<le> count_list (map suit cs) (suit c))"
  shows "(flushSuitOf (map suit (sortByValueDesc cs)) \<noteq> None) = (\<exists>c\<in>set cs. Qf c)"
    and "flushSuitOf (map suit (sortByValueDesc cs)) = Some fs \<Longrightarrow>
         readAt (map getCardValue (filter (\<lambda>c. suit c = fs) (sortByValueDesc cs))) 0
           = Inr (hd (map getCardValue (sortByValueDesc (filter Qf cs))))"
proof -
  let ?s = "sortByValueDesc cs"
  have cnt: "\<And>x. count_list (map suit ?s) x = count_list (map suit cs) x"
    by (simp add: count_mset[symmetric] sortByValueDesc_def del: count_mset)
  have fs: "flushSuitOf (map suit ?s) = map_option suit (List.find Qf ?s)"
    unfolding flushSuitOf_find find_map_comp Qf_def cnt ..
  show "(flushSuitOf (map suit ?s) \<noteq> None) = (\<exists>c\<in>set cs. Qf c)"
    unfolding fs by (auto simp: find_None_iff set_sortByValueDesc)
  assume "flushSuitOf (map suit ?s) = Some fs"
  with fs obtain c0 where c0: "List.find Qf ?s = Some c0" "fs = suit c0"
    by (cases "List.find Qf ?s") auto
  from c0(1) have "hd (filter (\<lambda>c. suit c = suit c0) ?s) = c0 \<and> hd (filter Qf ?s) = c0"
    unfolding Qf_def by (rule find_first_of_class)
  moreover from c0(1) have "c0 \<in> set ?s" "Qf c0" by (auto simp: find_Some_iff)
  then have ne: "filter (\<lambda>c. suit c = suit c0) ?s \<noteq> []" "filter Qf ?s \<noteq> []"
    by (auto simp: filter_empty_conv)
  ultimately have "readAt (map getCardValue (filter (\<lambda>c. suit c = fs) ?s)) 0
      = Inr (hd (map getCardValue (filter Qf ?s)))"
    by (simp add: readAt_0 c0(2) hd_map)
  also have "filter Qf ?s = sortByValueDesc (filter Qf cs)"
    by (simp add: sortByValueDesc_def filter_sort)
  finally show "readAt (map getCardValue (filter (\<lambda>c. suit c = fs) ?s)) 0
           = Inr (hd (map getCardValue (sortByValueDesc (filter Qf cs))))" .
qed

lemma detectHand_flush_cong:
  "isFlush \<longrightarrow> readAt fc 0 = readAt fc' 0 \<Longrightarrow>
   detectHand vs counts dv isFlush fc sh = detectHand vs counts dv isFlush fc' sh"
  by (cases isFlush) (simp_all add: detectHand_def split: option.split prod.split)

lemma flush_mset:
  fixes a b :: "card list"
  assumes "mset b = mset a"
  shows "(flushSuitOf (map suit (sortByValueDesc b)) \<noteq> None) = (flushSuitOf (map suit (sortByValueDesc a)) \<noteq> None)"
    and "flushSuitOf (map suit (sortByValueDesc a)) = Some fa \<Longrightarrow>
         flushSuitOf (map suit (sortByValueDesc b)) = Some fb \<Longrightarrow>
         readAt (map getCardValue (filter (\<lambda>c. suit c = fb) (sortByValueDesc b))) 0
           = readAt (map getCardValue (filter (\<lambda>c. suit c = fa) (sortByValueDesc a))) 0"
proof -
  have "\<And>x. count_list (map suit b) x = count_list (map suit a) x"
    using assms by (metis count_mset mset_map)
  then have Q: "(\<lambda>c. 5 \<le> count_list (map suit b) (suit c)) = (\<lambda>c. 5 \<le> count_list (map suit a) (suit c))"
    by simp
  let ?Q = "\<lambda>c. 5 \<le> count_list (map suit a) (suit c)"
  show "(flushSuitOf (map suit (sortByValueDesc b)) \<noteq> None) = (flushSuitOf (map suit (sortByValueDesc a)) \<noteq> None)"
    unfolding flush_outcome(1) Q using assms by (metis set_mset_mset)
  have top: "map getCardValue (sortByValueDesc (filter ?Q b)) = map getCardValue (sortByValueDesc (filter ?Q a))"
    by (rule sorted_values_mset) (simp only: mset_filter assms)
  assume fa: "flushSuitOf (map suit (sortByValueDesc a)) = Some fa"
    and fb: "flushSuitOf (map suit (sortByValueDesc b)) = Some fb"
  from flush_outcome(2)[OF fa] flush_outcome(2)[OF fb]
  show "readAt (map getCardValue (filter (\<lambda>c. suit c = fb) (sortByValueDesc b))) 0
           = readAt (map getCardValue (filter (\<lambda>c. suit c = fa) (sortByValueDesc a))) 0"
    unfolding Q by (simp only: top)
qed

lemma evaluateCards_mset:
  fixes a b :: "card list"
  assumes "mset b = mset a"
  shows "evaluateHand b [] = evaluateHand a []"
proof (cases "a = []")
  case True
  with assms have "b = []" by simp
  with True show ?thesis by simp
next
  case False
  with assms have ne': "b \<noteq> []" by auto
  have vals: "map getCardValue (sortByValueDesc b) = map getCardValue (sortByValueDesc a)"
    by (rule sorted_values_mset[OF assms])
  note isf = flush_mset(1)[OF assms]
  let ?fc = "\<lambda>cs. case flushSuitOf (map suit (sortByValueDesc cs)) of None \<Rightarrow> []
                    | Some fs \<Rightarrow> map getCardValue (filter (\<lambda>c. suit c = fs) (sortByValueDesc cs))"
  have fc: "flushSuitOf (map suit (sortByValueDesc a)) \<noteq> None \<longrightarrow> readAt (?fc b) 0 = readAt (?fc a) 0"
  proof
    assume a: "flushSuitOf (map suit (sortByValueDesc a)) \<noteq> None"
    then obtain fa where fa: "flushSuitOf (map suit (sortByValueDesc a)) = Some fa" by auto
    from a isf obtain fb where fb: "flushSuitOf (map suit (sortByValueDesc b)) = Some fb" by auto
    from flush_mset(2)[OF assms fa fb] show "readAt (?fc b) 0 = readAt (?fc a) 0"
      by (simp add: fa fb)
  qed
  have E: "\<And>cs. cs \<noteq> [] \<Longrightarrow> evaluateHand cs [] =
      (case straightHighOf (uniqueInOrder (map getCardValue (sortByValueDesc cs))) of Inl e \<Rightarrow> Inl e
       | Inr sh \<Rightarrow> detectHand (map getCardValue (sortByValueDesc cs))
                    (tally (map getCardValue (sortByValueDesc cs)))
                    (sort_key (\<lambda>v. - v) (map fst (tally (map getCardValue (sortByValueDesc cs)))))
                    (flushSuitOf (map suit (sortByValueDesc cs)) \<noteq> None) (?fc cs) sh)"
    by (simp add: evaluateHand_def Let_def del: not_None_eq)
  show ?thesis
    unfolding E[OF False] E[OF ne'] vals isf
    by (rule sum.case_cong[OF refl]) (simp_all only: detectHand_flush_cong[OF fc])
qed

lemma evaluateHand_append: "evaluateHand h c = evaluateHand (h @ c) []"
  by (simp add: evaluateHand_def)

text \<open>
  C5: \<open>evaluateHand\<close> does not depend on the order of its cards. For every hole-card
  list and community-card list, of any length, and every permutation of each of them,
  the result (score and description) is the same.
\<close>

theorem evaluateHand_order_independent:
  assumes "mset hole' = mset hole" and "mset community' = mset community"
  shows "evaluateHand hole' community' = evaluateHand hole community"
proof -
  from assms have "mset (hole' @ community') = mset (hole @ community)" by simp
  from evaluateCards_mset[OF this] show ?thesis
    by (simp only: evaluateHand_append[symmetric])
qed

theorem evaluateHand_order_independent_witness:
  "mset [mkCard THREE HEARTS, mkCard TWO HEARTS] = mset [mkCard TWO HEARTS, mkCard THREE HEARTS]
   \<and> mset [mkCard FOUR CLUBS, mkCard ACE SPADES, mkCard KING HEARTS, mkCard NINE HEARTS, mkCard FIVE HEARTS]
       = mset [mkCard FIVE HEARTS, mkCard NINE HEARTS, mkCard KING HEARTS, mkCard ACE SPADES, mkCard FOUR CLUBS]
   \<and> evaluateHand [mkCard THREE HEARTS, mkCard TWO HEARTS]
        [mkCard FOUR CLUBS, mkCard ACE SPADES, mkCard KING HEARTS, mkCard NINE HEARTS, mkCard FIVE HEARTS]
      = evaluateHand [mkCard TWO HEARTS, mkCard THREE HEARTS]
        [mkCard FIVE HEARTS, mkCard NINE HEARTS, mkCard KING HEARTS, mkCard ACE SPADES, mkCard FOUR CLUBS]
   \<and> evaluateHand [mkCard TWO HEARTS, mkCard THREE HEARTS]
        [mkCard FIVE HEARTS, mkCard NINE HEARTS, mkCard KING HEARTS, mkCard ACE SPADES, mkCard FOUR CLUBS]
      = Inr \<lparr>score = 5013, description = ''Flush''\<rparr>"
proof -
  have h1: "mset [mkCard THREE HEARTS, mkCard TWO HEARTS] = mset [mkCard TWO HEARTS, mkCard THREE HEARTS]"
    by (simp add: add.commute)
  have h2: "mset [mkCard FOUR CLUBS, mkCard ACE SPADES, mkCard KING HEARTS, mkCard NINE HEARTS, mkCard FIVE HEARTS]
       = mset [mkCard FIVE HEARTS, mkCard NINE HEARTS, mkCard KING HEARTS, mkCard ACE SPADES, mkCard FOUR CLUBS]"
    by (simp add: ac_simps)
  have e: "evaluateHand [mkCard TWO HEARTS, mkCard THREE HEARTS]
        [mkCard FIVE HEARTS, mkCard NINE HEARTS, mkCard KING HEARTS, mkCard ACE SPADES, mkCard FOUR CLUBS]
      = Inr \<lparr>score = 5013, description = ''Flush''\<rparr>" by code_simp
  from evaluateHand_order_independent[OF h1 h2] h1 h2 e show ?thesis by simp
qed

subsection \<open>Fewer than five cards\<close>

lemma flushSuitOf_few: "length suits < 5 \<Longrightarrow> flushSuitOf suits = None"
proof -
  assume l: "length suits < 5"
  have "\<And>s. count_list suits s < 5" using count_le_length[of suits] l by (meson le_less_trans)
  then show ?thesis by (simp add: flushSuitOf_find find_None_iff not_le)
qed

lemma straightScan_few:
  "length us \<le> 4 \<Longrightarrow> consecutive \<le> int i \<Longrightarrow> straightScan us i consecutive sh = Inr sh"
proof (induction us i consecutive sh rule: straightScan.induct)
  case (1 us i consecutive straightHigh)
  show ?case
  proof (cases "int i < int (length us) - 1")
    case False
    then show ?thesis by (subst straightScan.simps) simp
  next
    case True
    then have a: "readAt us (int i) = Inr (us ! i)" and b: "readAt us (int i + 1) = Inr (us ! (i + 1))"
      by (auto simp: readAt_def nat_add_distrib)
    from True "1.prems" have small: "\<not> 4 \<le> consecutive + 1" by simp
    show ?thesis
    proof (cases "us ! i - us ! (i + 1) = 1")
      case False
      with True a b "1.IH"(3)[of "us ! i" "us ! (i+1)"] "1.prems" show ?thesis
        by (subst straightScan.simps) auto
    next
      case step: True
      with True a b small "1.IH"(2)[of "us ! i" "us ! (i+1)"] "1.prems" show ?thesis
        by (subst straightScan.simps) auto
    qed
  qed
qed

lemma straightHighOf_few:
  assumes "length us < 5"
  shows "straightHighOf us = Inr 0"
proof -
  from assms have s: "straightScan us 0 0 0 = Inr 0" by (simp add: straightScan_few)
  have "\<not> (14 \<in> set us \<and> 2 \<in> set us \<and> 3 \<in> set us \<and> 4 \<in> set us \<and> 5 \<in> set us)"
  proof
    assume "14 \<in> set us \<and> 2 \<in> set us \<and> 3 \<in> set us \<and> 4 \<in> set us \<and> 5 \<in> set us"
    then have "{14, 2, 3, 4, 5} \<subseteq> set us" by simp
    then have "card {14, 2, 3, 4, 5 :: int} \<le> card (set us)" by (intro card_mono) simp_all
    moreover have "card {14, 2, 3, 4, 5 :: int} = 5" by simp
    ultimately show False using card_length[of us] assms by simp
  qed
  with s show ?thesis by (auto simp: straightHighOf_def)
qed

lemma foldl_fullHouseStep_distinct:
  "distinct xs \<Longrightarrow> foldl (fullHouseStep counts) (a, b) xs = (t, w) \<Longrightarrow>
     (t = a \<or> (t \<in> set xs \<and> map_of counts t = Some 3))
   \<and> (w = b \<or> (w \<in> set xs \<and> (\<exists>n\<ge>2. map_of counts w = Some n)))
   \<and> (t \<noteq> a \<longrightarrow> w \<noteq> b \<longrightarrow> t \<noteq> w)"
proof (induction xs arbitrary: a b)
  case Nil
  then show ?case by simp
next
  case (Cons x xs)
  obtain a' b' where st: "fullHouseStep counts (a, b) x = (a', b')" by (cases "fullHouseStep counts (a, b) x")
  then have ab: "(a' = a \<and> b' = b) \<or> (a' = x \<and> b' = b \<and> map_of counts x = Some 3)
       \<or> (a' = a \<and> b' = x \<and> (\<exists>n\<ge>2. map_of counts x = Some n))"
    by (auto simp: fullHouseStep_def split: if_splits option.splits)
  from Cons.prems st have f: "foldl (fullHouseStep counts) (a', b') xs = (t, w)" and d: "distinct xs" "x \<notin> set xs"
    by simp_all
  from Cons.IH[OF d(1) f] ab d(2) show ?case by auto
qed

lemma three_zero_iff:
  "0 \<notin> set xs \<Longrightarrow>
   (fst (foldl (fullHouseStep counts) (a, b) xs) = 0) = (a = 0 \<and> (\<forall>v\<in>set xs. map_of counts v \<noteq> Some 3))"
proof (induction xs arbitrary: a b)
  case Nil
  show ?case by simp
next
  case (Cons x xs)
  obtain a' b' where st: "fullHouseStep counts (a, b) x = (a', b')" by (cases "fullHouseStep counts (a, b) x")
  then have a': "a' = (if map_of counts x = Some 3 \<and> a = 0 then x else a)"
    by (auto simp: fullHouseStep_def split: if_splits)
  from Cons.prems have "0 \<notin> set xs" "x \<noteq> 0" by auto
  from Cons.IH[OF this(1), of a' b'] st a' this(2) show ?case by auto
qed

lemma count_two_le_length: "x \<noteq> y \<Longrightarrow> count_list xs x + count_list xs y \<le> length xs"
  by (induction xs) auto

lemma detectHand_plain:
  assumes "vs \<noteq> []" and "threeAndTwo counts dv = (t, w)"
  shows "\<exists>r. detectHand vs counts dv False fc 0 = Inr r \<and> description r =
     (if List.find (\<lambda>v. map_of counts v = Some 4) dv \<noteq> None then ''Four of a Kind''
      else if t \<noteq> 0 \<and> w \<noteq> 0 then ''Full House''
      else if t \<noteq> 0 then ''Three of a Kind''
      else if 2 \<le> length (filter (\<lambda>v. map_of counts v = Some 2) dv) then ''Two Pair''
      else if length (filter (\<lambda>v. map_of counts v = Some 2) dv) = 1 then ''Pair''
      else ''High Card'')"
proof -
  from assms(1) have "0 < length vs" by simp
  then show ?thesis
    using assms(2) by (auto simp: detectHand_def Let_def readAt_def split: option.splits)
qed

lemma length_uniqueInOrder: "length (uniqueInOrder xs) \<le> length xs"
proof -
  have "length (uniqueInOrder xs) = card (set (uniqueInOrder xs))"
    by (simp add: distinct_card distinct_uniqueInOrder)
  also have "\<dots> \<le> length xs" by (simp add: set_uniqueInOrder card_length)
  finally show ?thesis .
qed

lemma distinct_iff_count_one:
  "distinct xs = (\<forall>x\<in>set xs. count_list xs x = 1)"
proof
  assume "distinct xs"
  then show "\<forall>x\<in>set xs. count_list xs x = 1"
    by (simp add: distinct_count_atmost_1 count_mset)
next
  assume a: "\<forall>x\<in>set xs. count_list xs x = 1"
  have "\<And>x. count (mset xs) x = (if x \<in> set xs then 1 else 0)"
    using a by (auto simp: count_list_0_iff count_mset)
  then show "distinct xs" by (simp only: distinct_count_atmost_1) simp
qed

lemma few_core:
  fixes vs :: "int list"
  assumes sdv: "set dv = set vs" and ddv: "distinct dv" and z: "0 \<notin> set dv"
    and vne: "vs \<noteq> []" and few: "length vs < 5"
    and cntk: "\<And>v k. v \<in> set vs \<Longrightarrow> (map_of counts v = Some k) = (int (count_list vs v) = k)"
  shows "\<exists>r. detectHand vs counts dv False fc 0 = Inr r
      \<and> description r =
          (if \<exists>v\<in>set vs. count_list vs v = 4 then ''Four of a Kind''
           else if \<exists>v\<in>set vs. count_list vs v = 3 then ''Three of a Kind''
           else if 2 \<le> card {v \<in> set vs. count_list vs v = 2} then ''Two Pair''
           else if \<exists>v\<in>set vs. count_list vs v = 2 then ''Pair''
           else ''High Card'')
      \<and> (description r = ''High Card'') = distinct vs"
proof -
  obtain t w where tw: "threeAndTwo counts dv = (t, w)" by (cases "threeAndTwo counts dv")
  let ?quads = "List.find (\<lambda>v. map_of counts v = Some 4) dv"
  let ?pairs = "filter (\<lambda>v. map_of counts v = Some 2) dv"
  from detectHand_plain[OF vne tw, of fc] obtain r where
    r: "detectHand vs counts dv False fc 0 = Inr r"
    and d: "description r =
     (if ?quads \<noteq> None then ''Four of a Kind''
      else if t \<noteq> 0 \<and> w \<noteq> 0 then ''Full House''
      else if t \<noteq> 0 then ''Three of a Kind''
      else if 2 \<le> length ?pairs then ''Two Pair''
      else if length ?pairs = 1 then ''Pair''
      else ''High Card'')" by blast
  have nofh: "\<not> (t \<noteq> 0 \<and> w \<noteq> 0)"
  proof
    assume a: "t \<noteq> 0 \<and> w \<noteq> 0"
    from foldl_fullHouseStep_distinct[OF ddv tw[unfolded threeAndTwo_def]] a
    obtain n where f: "t \<in> set dv" "map_of counts t = Some 3" "w \<in> set dv"
        "2 \<le> n" "map_of counts w = Some n" "t \<noteq> w" by auto
    from f(1,2) cntk[of t 3] sdv have "count_list vs t = 3" by simp
    moreover from f(3,4,5) cntk[of w n] sdv have "2 \<le> count_list vs w" by simp
    ultimately have "5 \<le> length vs" using count_two_le_length[OF f(6), of vs] by linarith
    with few show False by simp
  qed
  have q: "(?quads = None) = (\<forall>v\<in>set vs. count_list vs v \<noteq> 4)"
    by (auto simp: find_None_iff sdv cntk)
  have "fst (threeAndTwo counts dv) = t" by (simp add: tw)
  with three_zero_iff[OF z, of counts 0 0]
  have t0: "(t = 0) = (\<forall>v\<in>set vs. count_list vs v \<noteq> 3)"
    by (auto simp: threeAndTwo_def sdv cntk)
  have p: "(?pairs = []) = (\<forall>v\<in>set vs. count_list vs v \<noteq> 2)"
    by (auto simp: filter_empty_conv sdv cntk)
  have "set ?pairs = {v \<in> set vs. count_list vs v = 2}" by (auto simp: sdv cntk)
  moreover have "distinct ?pairs" using ddv by simp
  ultimately have lp: "length ?pairs = card {v \<in> set vs. count_list vs v = 2}"
    by (metis distinct_card)
  have bound: "\<And>v. v \<in> set vs \<Longrightarrow> 1 \<le> count_list vs v \<and> count_list vs v \<le> 4"
  proof -
    fix v assume "v \<in> set vs"
    then have "count_list vs v \<noteq> 0" by (simp only: count_list_0_iff) simp
    moreover have "count_list vs v \<le> length vs" by (rule count_le_length)
    ultimately show "1 \<le> count_list vs v \<and> count_list vs v \<le> 4" using few by linarith
  qed
  have one: "\<And>v. v \<in> set vs \<Longrightarrow>
      (count_list vs v \<noteq> 4 \<and> count_list vs v \<noteq> 3 \<and> count_list vs v \<noteq> 2) = (count_list vs v = 1)"
  proof -
    fix v assume "v \<in> set vs"
    from bound[OF this] show "(count_list vs v \<noteq> 4 \<and> count_list vs v \<noteq> 3 \<and> count_list vs v \<noteq> 2)
       = (count_list vs v = 1)" by arith
  qed
  have "(?quads = None \<and> t = 0 \<and> ?pairs = [])
      = (\<forall>v\<in>set vs. count_list vs v \<noteq> 4 \<and> count_list vs v \<noteq> 3 \<and> count_list vs v \<noteq> 2)"
    unfolding q t0 p by blast
  also have "\<dots> = (\<forall>v\<in>set vs. count_list vs v = 1)"
    by (rule ball_cong[OF refl]) (rule one)
  also have "\<dots> = distinct vs" by (rule distinct_iff_count_one[symmetric])
  finally have hc: "(?quads = None \<and> t = 0 \<and> ?pairs = []) = distinct vs" .
  have pl: "(?pairs = []) = (\<not> 2 \<le> length ?pairs \<and> length ?pairs \<noteq> 1)"
    by (simp only: length_0_conv[symmetric]) arith
  have "(description r = ''High Card'') = (?quads = None \<and> t = 0 \<and> ?pairs = [])"
    unfolding d pl using nofh by auto
  with hc have iff: "(description r = ''High Card'') = distinct vs" by simp
  have q': "(?quads \<noteq> None) = (\<exists>v\<in>set vs. count_list vs v = 4)" using q by auto
  have t0': "(t \<noteq> 0) = (\<exists>v\<in>set vs. count_list vs v = 3)" using t0 by auto
  have p1: "\<not> 2 \<le> length ?pairs \<Longrightarrow> (length ?pairs = 1) = (\<exists>v\<in>set vs. count_list vs v = 2)"
    using p pl by auto
  have cls: "description r =
          (if \<exists>v\<in>set vs. count_list vs v = 4 then ''Four of a Kind''
           else if \<exists>v\<in>set vs. count_list vs v = 3 then ''Three of a Kind''
           else if 2 \<le> card {v \<in> set vs. count_list vs v = 2} then ''Two Pair''
           else if \<exists>v\<in>set vs. count_list vs v = 2 then ''Pair''
           else ''High Card'')"
  proof (cases "?quads \<noteq> None")
    case True
    with d q' show ?thesis by simp
  next
    case nq: False
    show ?thesis
    proof (cases "t \<noteq> 0")
      case True
      with d nq nofh q' t0' show ?thesis by simp
    next
      case nt: False
      show ?thesis
      proof (cases "2 \<le> length ?pairs")
        case True
        with d nq nt q' t0' lp show ?thesis by simp
      next
        case False
        from p1[OF False] d nq nt q' t0' lp False show ?thesis by simp
      qed
    qed
  qed
  from r cls iff show ?thesis by blast
qed

text \<open>
  C8, as the code has it. With one to four cards in total the class is decided by the
  ranks that repeat, and only by them: Four of a Kind if some rank occurs four times,
  otherwise Three of a Kind if some rank occurs three times, otherwise Two Pair if two
  ranks occur twice each, otherwise Pair if one rank occurs twice, otherwise High Card.
  So the result is never a Straight, a Flush or a Full House, and it is High Card
  exactly when no two cards have the same rank. (With no card at all the result is
  "Waiting".)
\<close>

theorem few_cards_classes:
  assumes ne: "hole @ community \<noteq> []" and few: "length (hole @ community) < 5"
  shows "\<exists>r. evaluateHand hole community = Inr r
      \<and> description r =
          (if \<exists>v\<in>set (map getCardValue (hole @ community)).
                 count_list (map getCardValue (hole @ community)) v = 4 then ''Four of a Kind''
           else if \<exists>v\<in>set (map getCardValue (hole @ community)).
                 count_list (map getCardValue (hole @ community)) v = 3 then ''Three of a Kind''
           else if 2 \<le> card {v \<in> set (map getCardValue (hole @ community)).
                 count_list (map getCardValue (hole @ community)) v = 2} then ''Two Pair''
           else if \<exists>v\<in>set (map getCardValue (hole @ community)).
                 count_list (map getCardValue (hole @ community)) v = 2 then ''Pair''
           else ''High Card'')
      \<and> (description r = ''High Card'') = distinct (map getCardValue (hole @ community))"
proof -
  let ?a = "hole @ community"
  let ?s = "sortByValueDesc ?a"
  let ?vs = "map getCardValue ?s"
  let ?u = "map getCardValue ?a"
  let ?counts = "tally ?vs"
  let ?dv = "sort_key (\<lambda>v. - v) (map fst ?counts)"
  have len: "length ?vs = length ?a" by (simp add: sortByValueDesc_def)
  with ne have vne: "?vs \<noteq> []" by (metis length_0_conv)
  from len few have few': "length ?vs < 5" by (simp only:)
  have nofl: "flushSuitOf (map suit ?s) = None"
    by (rule flushSuitOf_few) (simp add: sortByValueDesc_def few[simplified])
  have nost: "straightHighOf (uniqueInOrder ?vs) = Inr 0"
    by (rule straightHighOf_few) (use length_uniqueInOrder[of ?vs] few' in linarith)
  have ev: "evaluateHand hole community = detectHand ?vs ?counts ?dv False [] 0"
    using ne by (auto simp: evaluateHand_def Let_def nofl nost)
  have sdv: "set ?dv = set ?vs" by (simp add: keys_tally set_uniqueInOrder)
  have ddv: "distinct ?dv" by (simp add: keys_tally distinct_uniqueInOrder)
  have z: "0 \<notin> set ?dv"
  proof
    assume "0 \<in> set ?dv"
    then obtain c where "getCardValue c = 0" unfolding sdv by auto
    with getCardValue_range[of c] show False by simp
  qed
  have cntk: "\<And>v k. v \<in> set ?vs \<Longrightarrow> (map_of ?counts v = Some k) = (int (count_list ?vs v) = k)"
    by (simp add: map_of_tally)
  have ms: "mset ?vs = mset ?u" by (simp add: sortByValueDesc_def)
  have perm: "distinct ?vs = distinct ?u" by (rule mset_eq_imp_distinct_iff[OF ms])
  have cl: "count_list ?vs = count_list ?u"
    using ms by (metis count_mset ext)
  have st: "set ?vs = set ?u" using ms by (rule mset_eq_setD)
  from few_core[OF sdv ddv z vne few' cntk, of "[]"] show ?thesis
    unfolding ev perm cl st by blast
qed

theorem few_cards_classes_witness:
  "[mkCard ACE SPADES, mkCard ACE HEARTS] @ [] \<noteq> []
   \<and> length ([mkCard ACE SPADES, mkCard ACE HEARTS] @ []) < 5
   \<and> (\<exists>r. evaluateHand [mkCard ACE SPADES, mkCard ACE HEARTS] [] = Inr r \<and> description r = ''Pair'')
   \<and> [mkCard ACE SPADES, mkCard KING HEARTS] @ [mkCard TWO CLUBS] \<noteq> []
   \<and> length ([mkCard ACE SPADES, mkCard KING HEARTS] @ [mkCard TWO CLUBS]) < 5
   \<and> (\<exists>r. evaluateHand [mkCard ACE SPADES, mkCard KING HEARTS] [mkCard TWO CLUBS] = Inr r
          \<and> description r = ''High Card'')"
proof -
  have h1: "[mkCard ACE SPADES, mkCard ACE HEARTS] @ [] \<noteq> []" by simp
  have h2: "length ([mkCard ACE SPADES, mkCard ACE HEARTS] @ []) < 5" by simp
  have v1: "map getCardValue ([mkCard ACE SPADES, mkCard ACE HEARTS] @ []) = [14, 14]"
    by (simp add: mkCard_def getCardValue_def)
  have s1: "{v \<in> set [14, 14 :: int]. count_list [14, 14] v = 2} = {14}" by auto
  from few_cards_classes[OF h1 h2]
  have a: "\<exists>r. evaluateHand [mkCard ACE SPADES, mkCard ACE HEARTS] [] = Inr r \<and> description r = ''Pair''"
    unfolding v1 s1 by auto
  have h3: "[mkCard ACE SPADES, mkCard KING HEARTS] @ [mkCard TWO CLUBS] \<noteq> []" by simp
  have h4: "length ([mkCard ACE SPADES, mkCard KING HEARTS] @ [mkCard TWO CLUBS]) < 5" by simp
  have d: "distinct (map getCardValue ([mkCard ACE SPADES, mkCard KING HEARTS] @ [mkCard TWO CLUBS]))"
    by (simp add: mkCard_def getCardValue_def)
  from few_cards_classes[OF h3 h4] d
  have b: "\<exists>r. evaluateHand [mkCard ACE SPADES, mkCard KING HEARTS] [mkCard TWO CLUBS] = Inr r
          \<and> description r = ''High Card''" by blast
  from h1 h2 a h3 h4 b show ?thesis by blast
qed

theorem few_cards_pair_counterexample:
  "length ([mkCard ACE SPADES, mkCard ACE HEARTS] @ []) < 5
   \<and> evaluateHand [mkCard ACE SPADES, mkCard ACE HEARTS] [] = Inr \<lparr>score = 1014, description = ''Pair''\<rparr>
   \<and> description \<lparr>score = 1014, description = ''Pair''\<rparr> \<noteq> ''High Card''"
  by code_simp

subsection \<open>The rank a score carries\<close>










subsection \<open>Scores and standard hand strength\<close>





text \<open>
  The two rank terms of a full house are packed as \<open>three * 10 + two\<close> although a rank
  goes up to 14: threes full of twos, the stronger hand, scores below twos full of aces.
\<close>

lemma full_house_packing_example:
  "std_weaker ([mkCard TWO HEARTS, mkCard TWO CLUBS] @ [mkCard TWO SPADES, mkCard ACE CLUBS, mkCard ACE SPADES])
              ([mkCard THREE HEARTS, mkCard THREE CLUBS] @ [mkCard THREE SPADES, mkCard TWO DIAMONDS, mkCard TWO SPADES])
   \<and> evaluateHand [mkCard THREE HEARTS, mkCard THREE CLUBS] [mkCard THREE SPADES, mkCard TWO DIAMONDS, mkCard TWO SPADES]
       = Inr \<lparr>score = 6032, description = ''Full House''\<rparr>
   \<and> evaluateHand [mkCard TWO HEARTS, mkCard TWO CLUBS] [mkCard TWO SPADES, mkCard ACE CLUBS, mkCard ACE SPADES]
       = Inr \<lparr>score = 6034, description = ''Full House''\<rparr>"
  by code_simp

section \<open>Properties of the starting-hand grading\<close>

text \<open>
  C9: on every two-card input, \<open>gradeStartingHand\<close> returns the heuristic score rounded
  up to an integer, the grade that the thresholds (at least 20 S, 15 A, 10 B, 7 C, 5 D,
  else F) give for the rounded score, and the advisory string fixed for that grade.
  Ace of spades with ace of hearts grades S; seven of clubs with two of hearts grades F.
\<close>

theorem gradeStartingHand_thresholds:
  "gradeStartingHand [a, b] =
     \<lparr>hand_grade.score = of_int \<lceil>startingHandPoints a b\<rceil>,
      grade = spec_grade \<lceil>startingHandPoints a b\<rceil>,
      tip = spec_tip (spec_grade \<lceil>startingHandPoints a b\<rceil>)\<rparr>
   \<and> grade (gradeStartingHand [mkCard ACE SPADES, mkCard ACE HEARTS]) = ''S''
   \<and> grade (gradeStartingHand [mkCard SEVEN CLUBS, mkCard TWO HEARTS]) = ''F''"
proof (intro conjI)
  show "gradeStartingHand [a, b] =
     \<lparr>hand_grade.score = of_int \<lceil>startingHandPoints a b\<rceil>,
      grade = spec_grade \<lceil>startingHandPoints a b\<rceil>,
      tip = spec_tip (spec_grade \<lceil>startingHandPoints a b\<rceil>)\<rparr>"
    by (simp add: gradeStartingHand_def spec_grade_def spec_tip_def Let_def)
  show "grade (gradeStartingHand [mkCard ACE SPADES, mkCard ACE HEARTS]) = ''S''"
    by code_simp
  show "grade (gradeStartingHand [mkCard SEVEN CLUBS, mkCard TWO HEARTS]) = ''F''"
    by code_simp
qed

section \<open>Properties of the betting engine\<close>

subsection \<open>Actions\<close>

lemma findIndexFrom_range:
  "findIndexFrom P xs k = - 1 \<or> (k \<le> findIndexFrom P xs k \<and> findIndexFrom P xs k < k + int (length xs))"
  by (induction xs arbitrary: k) (auto, force+)

lemma findIndexFrom_first:
  "x \<in> set xs \<Longrightarrow> P x \<Longrightarrow> 0 \<le> k \<Longrightarrow>
   k \<le> findIndexFrom P xs k \<and> findIndexFrom P xs k < k + int (length xs) \<and>
   P (xs ! nat (findIndexFrom P xs k - k))"
proof (induction xs arbitrary: k)
  case Nil
  then show ?case by simp
next
  case (Cons y ys)
  show ?case
  proof (cases "P y")
    case True
    then show ?thesis by simp
  next
    case False
    with Cons.prems have "x \<in> set ys" by auto
    from Cons.IH[OF this Cons.prems(2), of "k + 1"] Cons.prems(3)
    have ih: "k + 1 \<le> findIndexFrom P ys (k + 1)" "findIndexFrom P ys (k + 1) < k + 1 + int (length ys)"
      "P (ys ! nat (findIndexFrom P ys (k + 1) - (k + 1)))" by auto
    have "nat (findIndexFrom P ys (k + 1) - k) = Suc (nat (findIndexFrom P ys (k + 1) - (k + 1)))"
      using ih(1) by linarith
    with False ih show ?thesis by simp
  qed
qed

lemma seat_found:
  assumes "pl \<in> set ps" and "distinct (map player_id ps)"
  shows "seatOf ps (findIndex (\<lambda>p. player_id p = player_id pl) ps) = Inr pl"
proof -
  let ?i = "findIndex (\<lambda>p. player_id p = player_id pl) ps"
  from findIndexFrom_first[OF assms(1), of "\<lambda>p. player_id p = player_id pl" 0]
  have r: "0 \<le> ?i" "?i < int (length ps)" "player_id (ps ! nat ?i) = player_id pl"
    by (simp_all add: findIndex_def)
  then have "ps ! nat ?i \<in> set ps" by simp
  with assms r(3) have "ps ! nat ?i = pl"
    by (meson distinct_map inj_onD)
  with r show ?thesis by (simp add: seatOf_def seatAt_def)
qed

lemma sum_list_map_update:
  fixes f :: "'a \<Rightarrow> int"
  shows "i < length xs \<Longrightarrow> sum_list (map f (xs[i := y])) = sum_list (map f xs) - f (xs ! i) + f y"
proof (induction xs arbitrary: i)
  case Nil
  then show ?case by simp
next
  case (Cons x xs)
  then show ?case by (cases i) simp_all
qed

lemma processPlayerAction_effect:
  assumes "processPlayerAction state pl amount verb dt = Inr state'"
  shows "0 \<le> findIndex (\<lambda>p. player_id p = player_id pl) (players state)
       \<and> findIndex (\<lambda>p. player_id p = player_id pl) (players state) < int (length (players state))
       \<and> pot state' = pot state + min amount (chips pl)
       \<and> (\<exists>p'. players state' = (players state)[nat (findIndex (\<lambda>p. player_id p = player_id pl) (players state)) := p']
             \<and> chips p' = chips (players state ! nat (findIndex (\<lambda>p. player_id p = player_id pl) (players state))) - min amount (chips pl)
             \<and> player.currentBet p' = player.currentBet (players state ! nat (findIndex (\<lambda>p. player_id p = player_id pl) (players state))) + min amount (chips pl)
             \<and> (chips p' = 0 \<longrightarrow> isAllIn p'))"
proof -
  let ?i = "findIndex (\<lambda>p. player_id p = player_id pl) (players state)"
  let ?a = "min amount (chips pl)"
  from assms obtain p where p: "seatOf (players state) ?i = Inr p"
    by (auto simp: processPlayerAction_def Let_def split: sum.splits)
  then have rng: "0 \<le> ?i" "?i < int (length (players state))" and pp: "players state ! nat ?i = p"
    by (auto simp: seatOf_def seatAt_def split: if_splits)
  define p2 where "p2 = (if chips (p\<lparr>chips := chips p - ?a, player.currentBet := player.currentBet p + ?a\<rparr>) = 0
      then p\<lparr>chips := chips p - ?a, player.currentBet := player.currentBet p + ?a\<rparr>\<lparr>isAllIn := True\<rparr>
      else p\<lparr>chips := chips p - ?a, player.currentBet := player.currentBet p + ?a\<rparr>)"
  define msg where "msg = trim (firstWord verb @ '' '' @ bubbleAmount dt ?a)"
  define p3 where "p3 = p2\<lparr>actionMessage := Some (if msg = ''Checks'' then ''Check'' else msg)\<rparr>"
  have p3: "chips p3 = chips p - ?a" "player.currentBet p3 = player.currentBet p + ?a"
      "chips p3 = 0 \<longrightarrow> isAllIn p3"
    by (simp_all add: p3_def p2_def)
  from assms p have "pot state' = pot state + ?a \<and> players state' = (players state)[nat ?i := p3]"
    unfolding processPlayerAction_def Let_def p3_def p2_def msg_def by auto
  with rng p3 pp show ?thesis by blast
qed

text \<open>
  C7: a call of \<open>processPlayerAction\<close> for a seat of the state (seat identifiers being
  unique) with a non-negative stack and a requested amount of at least 0 returns a state,
  not an error. The amount committed is the minimum of the request and the seat's chips:
  the seat's chips go down by it and stay non-negative, its \<open>currentBet\<close> and the pot go
  up by it, the seat is all-in if its chips reach 0, and no other seat changes.
\<close>

theorem processPlayerAction_caps:
  assumes "0 \<le> amount" and "0 \<le> chips pl"
    and "pl \<in> set (players state)" and "distinct (map player_id (players state))"
  shows "\<exists>state' i p'. processPlayerAction state pl amount verb dt = Inr state'
       \<and> i < length (players state) \<and> players state ! i = pl
       \<and> players state' = (players state)[i := p']
       \<and> chips p' = chips pl - min amount (chips pl)
       \<and> 0 \<le> chips p'
       \<and> player.currentBet p' = player.currentBet pl + min amount (chips pl)
       \<and> pot state' = pot state + min amount (chips pl)
       \<and> (chips p' = 0 \<longrightarrow> isAllIn p')"
proof -
  let ?i = "findIndex (\<lambda>p. player_id p = player_id pl) (players state)"
  from seat_found[OF assms(3,4)] have seat: "seatOf (players state) ?i = Inr pl" .
  then have rng: "nat ?i < length (players state)" and pp: "players state ! nat ?i = pl"
    by (auto simp: seatOf_def seatAt_def split: if_splits)
  from seat obtain state' where ret: "processPlayerAction state pl amount verb dt = Inr state'"
    by (auto simp: processPlayerAction_def Let_def)
  from processPlayerAction_effect[OF ret] obtain p' where
    e0: "pot state' = pot state + min amount (chips pl)"
       "players state' = (players state)[nat ?i := p']"
       "chips p' = chips (players state ! nat ?i) - min amount (chips pl)"
       "player.currentBet p' = player.currentBet (players state ! nat ?i) + min amount (chips pl)"
       "chips p' = 0 \<longrightarrow> isAllIn p'"
    by blast
  note e = e0[unfolded pp]
  from e(3) assms(1,2) have "0 \<le> chips p'" by simp
  with ret rng pp e show ?thesis by blast
qed

theorem processPlayerAction_caps_witness:
  "(0::int) \<le> 50 \<and> 0 \<le> chips (betSeats ! 1) \<and> betSeats ! 1 \<in> set (players betTable)
   \<and> distinct (map player_id (players betTable))
   \<and> (\<exists>state' i p'. processPlayerAction betTable (betSeats ! 1) 50 ''Calls'' None = Inr state'
         \<and> i < length (players betTable) \<and> players betTable ! i = betSeats ! 1
         \<and> players state' = (players betTable)[i := p']
         \<and> chips p' = chips (betSeats ! 1) - min 50 (chips (betSeats ! 1))
         \<and> 0 \<le> chips p'
         \<and> player.currentBet p' = player.currentBet (betSeats ! 1) + min 50 (chips (betSeats ! 1))
         \<and> pot state' = pot betTable + min 50 (chips (betSeats ! 1))
         \<and> (chips p' = 0 \<longrightarrow> isAllIn p'))"
proof -
  have h1: "(0::int) \<le> 50" by simp
  have h2: "0 \<le> chips (betSeats ! 1)" by (simp add: betSeats_def mkSeat_def)
  have h3: "betSeats ! 1 \<in> set (players betTable)"
    by (simp add: betTable_def mkTable_def betSeats_def)
  have h4: "distinct (map player_id (players betTable))"
    by (simp add: betTable_def mkTable_def betSeats_def mkSeat_def)
  from processPlayerAction_caps[OF h1 h2 h3 h4, of "''Calls''" None] h1 h2 h3 h4
  show ?thesis by blast
qed

subsection \<open>Showdown and the conservation of chips\<close>

lemma showdownScan_winners:
  "\<exists>b ws d. showdownScan community ps (b0, ws0, d0) = Inr (b, ws, d) \<and> b0 \<le> b
     \<and> ws = (if b = b0 then ws0 else []) @ filter (\<lambda>p. handScore community p = b) ps
     \<and> (b = b0 \<or> (\<exists>p\<in>set ps. handScore community p = b))
     \<and> (\<forall>p\<in>set ps. handScore community p \<le> b)"
proof (induction ps arbitrary: b0 ws0 d0)
  case Nil
  show ?case by simp
next
  case (Cons p ps)
  obtain r where r: "evaluateHand (hand p) community = Inr r"
    using evaluateHand_band[of "hand p" community] by blast
  then have hs: "handScore community p = score r" by (simp add: handScore_def)
  consider (gt) "score r > b0" | (eq) "score r = b0" | (lt) "score r < b0" by linarith
  then show ?case
  proof cases
    case gt
    from Cons.IH[of "score r" "[p]" "description r"] obtain b ws d where
      ih: "showdownScan community ps (score r, [p], description r) = Inr (b, ws, d)" "score r \<le> b"
          "ws = (if b = score r then [p] else []) @ filter (\<lambda>p. handScore community p = b) ps"
          "b = score r \<or> (\<exists>p\<in>set ps. handScore community p = b)"
          "\<forall>p\<in>set ps. handScore community p \<le> b" by blast
    from gt ih r hs show ?thesis by auto
  next
    case eq
    from Cons.IH[of b0 "ws0 @ [p]" d0] obtain b ws d where
      ih: "showdownScan community ps (b0, ws0 @ [p], d0) = Inr (b, ws, d)" "b0 \<le> b"
          "ws = (if b = b0 then ws0 @ [p] else []) @ filter (\<lambda>p. handScore community p = b) ps"
          "b = b0 \<or> (\<exists>p\<in>set ps. handScore community p = b)"
          "\<forall>p\<in>set ps. handScore community p \<le> b" by blast
    from eq ih r hs show ?thesis by auto
  next
    case lt
    from Cons.IH[of b0 ws0 d0] obtain b ws d where
      ih: "showdownScan community ps (b0, ws0, d0) = Inr (b, ws, d)" "b0 \<le> b"
          "ws = (if b = b0 then ws0 else []) @ filter (\<lambda>p. handScore community p = b) ps"
          "b = b0 \<or> (\<exists>p\<in>set ps. handScore community p = b)"
          "\<forall>p\<in>set ps. handScore community p \<le> b" by blast
    from lt ih r hs show ?thesis by auto
  qed
qed

lemma handScore_nonneg: "0 \<le> handScore community p"
proof -
  obtain r where r: "evaluateHand (hand p) community = Inr r" "inBand r"
    using evaluateHand_band[of "hand p" community] by blast
  from r(2) have "0 \<le> score r"
    by (auto simp: inBand_def classBand_def split: if_splits option.splits)
  with r(1) show ?thesis by (simp add: handScore_def)
qed

lemma showdownScan_start:
  assumes "ps \<noteq> []"
  shows "\<exists>b ws d. showdownScan community ps (- 1, [], []) = Inr (b, ws, d)
     \<and> ws = filter (\<lambda>p. handScore community p = b) ps \<and> ws \<noteq> []
     \<and> (\<forall>p\<in>set ps. handScore community p \<le> b)"
proof -
  from showdownScan_winners[of community ps "- 1" "[]" "[]"] obtain b ws d where
    s: "showdownScan community ps (- 1, [], []) = Inr (b, ws, d)"
       "ws = (if b = - 1 then [] else []) @ filter (\<lambda>p. handScore community p = b) ps"
       "b = - 1 \<or> (\<exists>p\<in>set ps. handScore community p = b)"
       "\<forall>p\<in>set ps. handScore community p \<le> b" by blast
  from assms obtain q where q: "q \<in> set ps" by (cases ps) auto
  with s(4) handScore_nonneg[of community q] have "b \<noteq> - 1" by fastforce
  with s(3) have "filter (\<lambda>p. handScore community p = b) ps \<noteq> []"
    by (auto simp: filter_empty_conv)
  with s(1,2,4) show ?thesis by auto
qed

lemma sum_chips_credit:
  "sum_list (map chips (map (\<lambda>p. if C p then p\<lparr>chips := chips p + w\<rparr> else p) ps))
     = sum_list (map chips ps) + w * int (length (filter C ps))"
  by (induction ps) (simp_all add: algebra_simps)

lemma credited_iff:
  assumes "distinct (map player_id ps)" and "p \<in> set ps"
  shows "(List.find (\<lambda>w. player_id w = player_id p) (filter Q ps) \<noteq> None) = (p \<in> set (filter Q ps))"
proof -
  have "(List.find (\<lambda>w. player_id w = player_id p) (filter Q ps) \<noteq> None)
        = (\<exists>w\<in>set (filter Q ps). player_id w = player_id p)"
    by (auto simp: find_None_iff)
  also have "\<dots> = (p \<in> set (filter Q ps))"
  proof
    assume "\<exists>w\<in>set (filter Q ps). player_id w = player_id p"
    then obtain w where w: "w \<in> set ps" "Q w" "player_id w = player_id p" by auto
    with assms have "w = p" by (meson distinct_map inj_onD)
    with w assms(2) show "p \<in> set (filter Q ps)" by simp
  next
    assume "p \<in> set (filter Q ps)"
    then show "\<exists>w\<in>set (filter Q ps). player_id w = player_id p" by auto
  qed
  finally show ?thesis .
qed

lemma handleShowdown_payout:
  assumes act: "\<exists>p\<in>set (players state). isActive p"
    and ids: "distinct (map player_id (players state))"
  shows "\<exists>state'. handleShowdown now state = Inr state'
      \<and> pot state' = 0 \<and> phase state' = SHOWDOWN \<and> lastPotSize state' = pot state
      \<and> winners state' \<noteq> []
      \<and> winners state' = filter (\<lambda>p. isActive p
             \<and> (\<forall>q\<in>set (players state). isActive q \<longrightarrow>
                   handScore (communityCards state) q \<le> handScore (communityCards state) p))
           (players state)
      \<and> players state' = map (\<lambda>p. if p \<in> set (winners state')
             then p\<lparr>chips := chips p + pot state div int (length (winners state'))\<rparr> else p)
           (players state)
      \<and> totalChips (players state')
          = totalChips (players state) + int (length (winners state')) * (pot state div int (length (winners state')))"
proof -
  let ?ps = "players state"
  let ?sc = "handScore (communityCards state)"
  let ?act = "filter isActive ?ps"
  from act have ne: "?act \<noteq> []" by (auto simp: filter_empty_conv)
  from showdownScan_start[OF ne, of "communityCards state"] obtain b ws d where
    s: "showdownScan (communityCards state) ?act (- 1, [], []) = Inr (b, ws, d)"
       "ws = filter (\<lambda>p. ?sc p = b) ?act" "ws \<noteq> []"
       "\<forall>p\<in>set ?act. ?sc p \<le> b" by blast
  from s(2,3) obtain m where m: "m \<in> set ?ps" "isActive m" "?sc m = b"
    by (auto simp: filter_empty_conv)
  let ?Q = "\<lambda>p. isActive p \<and> (\<forall>q\<in>set ?ps. isActive q \<longrightarrow> ?sc q \<le> ?sc p)"
  have best: "\<And>p. p \<in> set ?ps \<Longrightarrow> (isActive p \<and> ?sc p = b) = ?Q p"
  proof -
    fix p assume p: "p \<in> set ?ps"
    show "(isActive p \<and> ?sc p = b) = ?Q p"
    proof
      assume "isActive p \<and> ?sc p = b"
      with s(4) show "?Q p" by auto
    next
      assume q: "?Q p"
      with m have "b \<le> ?sc p" by auto
      moreover from q p s(4) have "?sc p \<le> b" by auto
      ultimately show "isActive p \<and> ?sc p = b" using q by simp
    qed
  qed
  have "ws = filter (\<lambda>p. isActive p \<and> ?sc p = b) ?ps" using s(2) by (simp add: conj_commute)
  also have "\<dots> = filter ?Q ?ps" by (rule filter_cong[OF refl best])
  finally have ws: "ws = filter ?Q ?ps" .
  let ?w = "pot state div int (length ws)"
  let ?new = "map (\<lambda>p. if List.find (\<lambda>w. player_id w = player_id p) ws \<noteq> None
                         then p\<lparr>chips := chips p + ?w\<rparr> else p) ?ps"
  have new: "?new = map (\<lambda>p. if p \<in> set ws then p\<lparr>chips := chips p + ?w\<rparr> else p) ?ps"
    by (rule map_cong[OF refl]) (simp only: ws credited_iff[OF ids])
  have "totalChips ?new = totalChips ?ps + ?w * int (length (filter (\<lambda>p. p \<in> set ws) ?ps))"
    unfolding new totalChips_def by (rule sum_chips_credit)
  also have "filter (\<lambda>p. p \<in> set ws) ?ps = ws"
    unfolding ws by (rule filter_cong[OF refl]) simp
  finally have tot: "totalChips ?new = totalChips ?ps + int (length ws) * ?w"
    by (simp add: mult.commute)
  from ne s(1) have "\<exists>state'. handleShowdown now state = Inr state' \<and> pot state' = 0
      \<and> phase state' = SHOWDOWN \<and> lastPotSize state' = pot state
      \<and> winners state' = ws \<and> players state' = ?new"
    by (simp add: handleShowdown_def Let_def)
  then obtain state' where r: "handleShowdown now state = Inr state'" "pot state' = 0"
      "phase state' = SHOWDOWN" "lastPotSize state' = pot state"
      "winners state' = ws" "players state' = ?new" by blast
  show ?thesis
  proof (intro exI[of _ state'] conjI)
    show "handleShowdown now state = Inr state'" by (rule r(1))
    show "pot state' = 0" by (rule r(2))
    show "phase state' = SHOWDOWN" by (rule r(3))
    show "lastPotSize state' = pot state" by (rule r(4))
    show "winners state' \<noteq> []" using r(5) s(3) by simp
    show "winners state' = filter ?Q ?ps" using r(5) ws by simp
    show "players state' = map (\<lambda>p. if p \<in> set (winners state')
             then p\<lparr>chips := chips p + pot state div int (length (winners state'))\<rparr> else p) ?ps"
      unfolding r(5) r(6) by (rule new)
    show "totalChips (players state')
          = totalChips ?ps + int (length (winners state')) * (pot state div int (length (winners state')))"
      unfolding r(5) r(6) by (rule tot)
  qed
qed

lemma handleShowdown_no_active:
  "\<forall>p\<in>set (players state). \<not> isActive p \<Longrightarrow> handleShowdown now state = Inr state"
  by (simp add: handleShowdown_def Let_def filter_empty_conv)


text \<open>
  C2, as the code has it. Every call of \<open>processPlayerAction\<close> that returns a state
  keeps the sum of all stacks and the pot: the acting seat's chips go down by what the
  pot goes up, and no other seat's chips change. At showdown, with at least one active
  seat and unique seat identifiers, the winners are the active seats whose hand score no
  active seat exceeds, in seat order; the phase becomes SHOWDOWN, the pot becomes 0 and is
  recorded as the last pot size; each winner, and no other seat, is credited the floor of
  the pot divided by the number of winners, so that the stacks grow by the pot less the
  remainder of that division, which no seat receives. With no active seat
  \<open>handleShowdown\<close> returns the state unchanged.
\<close>

theorem chips_conserved_until_showdown:
  "(processPlayerAction state pl amount verb dt = Inr state' \<longrightarrow>
      totalChips (players state') + pot state' = totalChips (players state) + pot state
      \<and> length (players state') = length (players state)
      \<and> (\<forall>j<length (players state).
            chips (players state ! j) - chips (players state' ! j)
              = (if int j = findIndex (\<lambda>p. player_id p = player_id pl) (players state)
                 then pot state' - pot state else 0)))
   \<and> ((\<exists>p\<in>set (players state). isActive p) \<and> distinct (map player_id (players state)) \<longrightarrow>
        (\<exists>state''. handleShowdown now state = Inr state''
           \<and> phase state'' = SHOWDOWN
           \<and> pot state'' = 0
           \<and> lastPotSize state'' = pot state
           \<and> winners state'' \<noteq> []
           \<and> winners state'' = filter (\<lambda>p. isActive p
                  \<and> (\<forall>q\<in>set (players state). isActive q \<longrightarrow>
                        handScore (communityCards state) q \<le> handScore (communityCards state) p))
                (players state)
           \<and> players state'' = map (\<lambda>p. if p \<in> set (winners state'')
                  then p\<lparr>chips := chips p + pot state div int (length (winners state''))\<rparr> else p)
                (players state)
           \<and> totalChips (players state'')
               = totalChips (players state) + pot state - pot state mod int (length (winners state''))))
   \<and> ((\<forall>p\<in>set (players state). \<not> isActive p) \<longrightarrow> handleShowdown now state = Inr state)"
proof (intro conjI impI)
  assume ret: "processPlayerAction state pl amount verb dt = Inr state'"
  let ?i = "findIndex (\<lambda>p. player_id p = player_id pl) (players state)"
  from processPlayerAction_effect[OF ret] obtain p' where
    e: "0 \<le> ?i" "?i < int (length (players state))"
       "pot state' = pot state + min amount (chips pl)"
       "players state' = (players state)[nat ?i := p']"
       "chips p' = chips (players state ! nat ?i) - min amount (chips pl)"
    by blast
  from e(1,2) have i: "nat ?i < length (players state)" by simp
  show "totalChips (players state') + pot state' = totalChips (players state) + pot state"
    unfolding totalChips_def e(4) sum_list_map_update[OF i] e(3) e(5) by simp
  show "length (players state') = length (players state)" by (simp add: e(4))
  show "\<forall>j<length (players state).
            chips (players state ! j) - chips (players state' ! j)
              = (if int j = ?i then pot state' - pot state else 0)"
  proof (intro allI impI)
    fix j assume j: "j < length (players state)"
    show "chips (players state ! j) - chips (players state' ! j)
              = (if int j = ?i then pot state' - pot state else 0)"
    proof (cases "int j = ?i")
      case True
      then have "j = nat ?i" by simp
      with True i e show ?thesis by simp
    next
      case False
      with e(1) have "j \<noteq> nat ?i" by auto
      with False e(4) show ?thesis by simp
    qed
  qed
next
  assume h: "(\<exists>p\<in>set (players state). isActive p) \<and> distinct (map player_id (players state))"
  let ?Q = "\<lambda>p. isActive p
                  \<and> (\<forall>q\<in>set (players state). isActive q \<longrightarrow>
                        handScore (communityCards state) q \<le> handScore (communityCards state) p)"
  from h have act: "\<exists>p\<in>set (players state). isActive p"
    and ids: "distinct (map player_id (players state))" by simp_all
  from handleShowdown_payout[OF act ids, of now] obtain state'' where
    r: "handleShowdown now state = Inr state''" "pot state'' = 0" "phase state'' = SHOWDOWN"
       "lastPotSize state'' = pot state" "winners state'' \<noteq> []"
       "winners state'' = filter ?Q (players state)"
       "players state'' = map (\<lambda>p. if p \<in> set (winners state'')
             then p\<lparr>chips := chips p + pot state div int (length (winners state''))\<rparr> else p)
           (players state)"
       "totalChips (players state'') = totalChips (players state)
          + int (length (winners state'')) * (pot state div int (length (winners state'')))"
    by blast
  have m: "int (length (winners state'')) * (pot state div int (length (winners state'')))
        = pot state - pot state mod int (length (winners state''))"
    by (simp add: minus_mod_eq_mult_div)
  show "\<exists>state''. handleShowdown now state = Inr state''
           \<and> phase state'' = SHOWDOWN
           \<and> pot state'' = 0
           \<and> lastPotSize state'' = pot state
           \<and> winners state'' \<noteq> []
           \<and> winners state'' = filter ?Q (players state)
           \<and> players state'' = map (\<lambda>p. if p \<in> set (winners state'')
                  then p\<lparr>chips := chips p + pot state div int (length (winners state''))\<rparr> else p)
                (players state)
           \<and> totalChips (players state'')
               = totalChips (players state) + pot state - pot state mod int (length (winners state''))"
  proof (intro exI[of _ state''] conjI)
    show "totalChips (players state'')
               = totalChips (players state) + pot state - pot state mod int (length (winners state''))"
      using r(8) m by simp
  qed (rule r)+
next
  assume "\<forall>p\<in>set (players state). \<not> isActive p"
  then show "handleShowdown now state = Inr state" by (rule handleShowdown_no_active)
qed

theorem chips_conserved_until_showdown_witness:
  "processPlayerAction betTable (betSeats ! 0) 30 ''Bets'' None = Inr betTableAfter
   \<and> (\<exists>p\<in>set (players splitTable). isActive p) \<and> distinct (map player_id (players splitTable))
   \<and> list_all (\<lambda>p. \<not> isActive p) (players foldedTable)
   \<and> totalChips (players betTableAfter) + pot betTableAfter = totalChips (players betTable) + pot betTable
   \<and> chips (players betTable ! 0) - chips (players betTableAfter ! 0) = pot betTableAfter - pot betTable
   \<and> chips (players betTable ! 1) - chips (players betTableAfter ! 1) = 0
   \<and> (\<exists>state''. handleShowdown ''12:00'' splitTable = Inr state''
         \<and> phase state'' = SHOWDOWN \<and> pot state'' = 0 \<and> lastPotSize state'' = 100
         \<and> map player_id (winners state'') = [''a'', ''b'', ''c'']
         \<and> map chips (players splitTable) = [970, 970, 970, 990]
         \<and> map chips (players state'') = [1003, 1003, 1003, 990]
         \<and> totalChips (players state'')
             = totalChips (players splitTable) + pot splitTable
               - pot splitTable mod int (length (winners state'')))
   \<and> handleShowdown ''12:00'' foldedTable = Inr foldedTable"
proof -
  have h1: "processPlayerAction betTable (betSeats ! 0) 30 ''Bets'' None = Inr betTableAfter"
    by code_simp
  have h2: "\<exists>p\<in>set (players splitTable). isActive p"
    by (simp add: splitTable_def mkTable_def splitSeats_def mkSeat_def)
  have h3: "distinct (map player_id (players splitTable))"
    by (simp add: splitTable_def mkTable_def splitSeats_def mkSeat_def)
  have h4: "list_all (\<lambda>p. \<not> isActive p) (players foldedTable)" by code_simp
  then have h4': "\<forall>p\<in>set (players foldedTable). \<not> isActive p" by (simp add: list_all_iff)
  have f: "findIndex (\<lambda>p. player_id p = player_id (betSeats ! 0)) (players betTable) = int 0"
    by code_simp
  have l: "0 < length (players betTable)" "1 < length (players betTable)"
    by (simp_all add: betTable_def mkTable_def betSeats_def)
  from chips_conserved_until_showdown[of betTable "betSeats ! 0" 30 "''Bets''" None betTableAfter]
  have a: "totalChips (players betTableAfter) + pot betTableAfter = totalChips (players betTable) + pot betTable"
    and b: "chips (players betTable ! 0) - chips (players betTableAfter ! 0) = pot betTableAfter - pot betTable"
    and b': "chips (players betTable ! 1) - chips (players betTableAfter ! 1) = 0"
    using h1 f l by auto
  let ?Q = "\<lambda>p. isActive p
                  \<and> (\<forall>q\<in>set (players splitTable). isActive q \<longrightarrow>
                        handScore (communityCards splitTable) q \<le> handScore (communityCards splitTable) p)"
  from chips_conserved_until_showdown[of splitTable "betSeats ! 0" 30 "''Bets''" None betTableAfter "''12:00''"]
    h2 h3 obtain s where
    c: "handleShowdown ''12:00'' splitTable = Inr s" "phase s = SHOWDOWN" "pot s = 0"
       "lastPotSize s = pot splitTable"
       "winners s = filter ?Q (players splitTable)"
       "players s = map (\<lambda>p. if p \<in> set (winners s)
                  then p\<lparr>chips := chips p + pot splitTable div int (length (winners s))\<rparr> else p)
                (players splitTable)"
       "totalChips (players s)
               = totalChips (players splitTable) + pot splitTable - pot splitTable mod int (length (winners s))"
    by blast
  have w: "filter ?Q (players splitTable) = take 3 splitSeats" by code_simp
  have p100: "pot splitTable = 100" by code_simp
  have c1: "map player_id (winners s) = [''a'', ''b'', ''c'']"
    unfolding c(5) w by code_simp
  have c2: "map chips (players splitTable) = [970, 970, 970, 990]" by code_simp
  have c3: "map chips (map (\<lambda>p. if p \<in> set (take 3 splitSeats)
                  then p\<lparr>chips := chips p + pot splitTable div int (length (take 3 splitSeats))\<rparr> else p)
                (players splitTable)) = [1003, 1003, 1003, 990]" by code_simp
  have c3': "map chips (players s) = [1003, 1003, 1003, 990]"
    using c3 c(6) unfolding c(5) w by simp
  from chips_conserved_until_showdown[of foldedTable "betSeats ! 0" 30 "''Bets''" None betTableAfter "''12:00''"]
    h4' have d: "handleShowdown ''12:00'' foldedTable = Inr foldedTable" by blast
  have e: "\<exists>state''. handleShowdown ''12:00'' splitTable = Inr state''
         \<and> phase state'' = SHOWDOWN \<and> pot state'' = 0 \<and> lastPotSize state'' = 100
         \<and> map player_id (winners state'') = [''a'', ''b'', ''c'']
         \<and> map chips (players splitTable) = [970, 970, 970, 990]
         \<and> map chips (players state'') = [1003, 1003, 1003, 990]
         \<and> totalChips (players state'')
             = totalChips (players splitTable) + pot splitTable
               - pot splitTable mod int (length (winners state''))"
    using c(1,2,3,4,7) p100 c1 c2 c3' by (intro exI[of _ s]) simp
  from h1 h2 h3 h4 a b b' e d show ?thesis by blast
qed

theorem showdown_split_counterexample:
  "handleShowdown ''12:00'' splitTable = Inr splitTableAfter
   \<and> pot splitTable = 100 \<and> pot splitTableAfter = 0
   \<and> length (winners splitTableAfter) = 3
   \<and> totalChips (players splitTableAfter) - totalChips (players splitTable) = 99"
  by code_simp

subsection \<open>Blinds\<close>

text \<open>
  C3 at a table where exactly two seats hold chips but a seat without chips sits
  between them: chips 1000, 0 and 500, button moving from seat 2 to seat 0. Seat 0, the
  button, posts the small blind of 10; the big blind is taken from seat 1, which has no
  chips, so it is 0, and seat 2, the other seat with chips, posts nothing. The pot is 10.
\<close>

theorem setupNewHand_heads_up_busted_seat:
  "setupNewHand createDeck bustedSeats 2 0 [] = Inr bustedTableAfter
   \<and> map chips bustedSeats = [1000, 0, 500]
   \<and> length (filter (\<lambda>p. chips p > 0) bustedSeats) = 2
   \<and> dealerIndex bustedTableAfter = 0
   \<and> map chips (players bustedTableAfter) = [990, 0, 500]
   \<and> map player.currentBet (players bustedTableAfter) = [10, 0, 0]
   \<and> lastRaiserIndex bustedTableAfter = Some 1
   \<and> pot bustedTableAfter = 10"
  by code_simp

subsection \<open>Turn rotation\<close>

lemma jsRem_nonneg: "0 \<le> a \<Longrightarrow> 0 < n \<Longrightarrow> jsRem a n = a mod n"
  by (cases "a = 0") (simp_all add: jsRem_def)

lemma nextSeatScan_find:
  assumes n: "ps \<noteq> []" and base: "0 \<le> base"
  shows "c \<le> length ps \<Longrightarrow>
     (case List.find (\<lambda>i. canAct (ps ! nat i)) (map (\<lambda>j. (base + int j) mod int (length ps)) [c..<length ps]) of
        None \<Rightarrow> \<exists>i. nextSeatScan ps ((base + int c) mod int (length ps)) c = Inr (i, length ps)
      | Some s \<Rightarrow> \<exists>c'. c' < length ps \<and> nextSeatScan ps ((base + int c) mod int (length ps)) c = Inr (s, c'))"
proof (induction "length ps - c" arbitrary: c)
  case 0
  then have c: "c = length ps" by simp
  from n have pos: "0 < int (length ps)" by simp
  let ?i = "base mod int (length ps)"
  have "0 \<le> ?i" "?i < int (length ps)" using pos by simp_all
  then have seat: "seatOf ps ?i = Inr (ps ! nat ?i)" by (simp add: seatOf_def seatAt_def)
  have "nextSeatScan ps ?i (length ps) = Inr (?i, length ps)"
    by (subst nextSeatScan.simps) (simp add: seat)
  then show ?case unfolding c by simp
next
  case (Suc k)
  then have c: "c < length ps" by simp
  from n have pos: "0 < int (length ps)" by simp
  let ?i = "(base + int c) mod int (length ps)"
  have rng: "0 \<le> ?i" "?i < int (length ps)" using pos by simp_all
  then have seat: "seatOf ps ?i = Inr (ps ! nat ?i)" by (simp add: seatOf_def seatAt_def)
  have nxt: "jsRem (?i + 1) (int (length ps)) = (base + int (Suc c)) mod int (length ps)"
  proof -
    have "jsRem (?i + 1) (int (length ps)) = (?i + 1) mod int (length ps)"
      using rng pos by (simp add: jsRem_nonneg)
    also have "\<dots> = (base + int c + 1) mod int (length ps)" by (simp add: mod_simps)
    also have "base + int c + 1 = base + int (Suc c)" by simp
    finally show ?thesis .
  qed
  have upt: "[c..<length ps] = c # [Suc c..<length ps]" using c by (simp add: upt_conv_Cons)
  show ?case
  proof (cases "canAct (ps ! nat ?i)")
    case True
    then have "nextSeatScan ps ?i c = Inr (?i, c)"
      by (subst nextSeatScan.simps) (auto simp: seat canAct_def)
    with True c show ?thesis by (simp add: upt)
  next
    case False
    then have step: "nextSeatScan ps ?i c = nextSeatScan ps ((base + int (Suc c)) mod int (length ps)) (Suc c)"
      using c by (subst nextSeatScan.simps) (auto simp: seat canAct_def nxt)
    from Suc.hyps(2) c have "k = length ps - Suc c" "Suc c \<le> length ps" by simp_all
    from Suc.hyps(1)[OF this, folded step] False show ?thesis by (simp add: upt)
  qed
qed

lemma spec_nextSeat_Some:
  assumes "ps \<noteq> []" and "spec_nextSeat ps cur = Some s"
  shows "0 \<le> s \<and> s < int (length ps) \<and> isActive (ps ! nat s) \<and> \<not> isAllIn (ps ! nat s)"
proof -
  from assms(2) obtain i where "canAct (ps ! nat s)" and "s = (cur + 1 + int i) mod int (length ps)"
    unfolding spec_nextSeat_def find_Some_iff by auto
  moreover from assms(1) have "0 < int (length ps)" by simp
  ultimately show ?thesis by (simp add: canAct_def)
qed

lemma spec_nextSeat_None:
  assumes "ps \<noteq> []"
  shows "(spec_nextSeat ps cur = None) = (\<forall>p\<in>set ps. \<not> canAct p)"
proof
  assume none: "spec_nextSeat ps cur = None"
  show "\<forall>p\<in>set ps. \<not> canAct p"
  proof
    fix p assume "p \<in> set ps"
    then obtain t where t: "t < length ps" "ps ! t = p" by (auto simp: in_set_conv_nth)
    let ?n = "int (length ps)"
    let ?j = "nat ((int t - cur - 1) mod ?n)"
    from assms have pos: "0 < ?n" by simp
    then have j: "?j < length ps" by (simp add: nat_less_iff)
    have "(cur + 1 + int ?j) mod ?n = (cur + 1 + (int t - cur - 1) mod ?n) mod ?n" using pos by simp
    also have "\<dots> = (cur + 1 + (int t - cur - 1)) mod ?n" by (simp add: mod_simps)
    also have "\<dots> = int t" using t(1) by simp
    finally have "(cur + 1 + int ?j) mod ?n = int t" .
    moreover have "\<not> canAct (ps ! nat ((cur + 1 + int ?j) mod ?n))"
    proof -
      define f where "f = (\<lambda>j. (cur + 1 + int j) mod ?n)"
      from none have "\<forall>x\<in>set (map f [0..<length ps]). \<not> canAct (ps ! nat x)"
        unfolding spec_nextSeat_def find_None_iff f_def by simp
      moreover from j have "f ?j \<in> set (map f [0..<length ps])" by simp
      ultimately have "\<not> canAct (ps ! nat (f ?j))" by blast
      then show ?thesis unfolding f_def .
    qed
    ultimately show "\<not> canAct p" using t(2) by simp
  qed
next
  assume all: "\<forall>p\<in>set ps. \<not> canAct p"
  from assms have pos: "0 < int (length ps)" by simp
  have "\<And>j. \<not> canAct (ps ! nat ((cur + 1 + int j) mod int (length ps)))"
  proof -
    fix j
    have "nat ((cur + 1 + int j) mod int (length ps)) < length ps" using pos by (simp add: nat_less_iff)
    then show "\<not> canAct (ps ! nat ((cur + 1 + int j) mod int (length ps)))" using all nth_mem by blast
  qed
  then show "spec_nextSeat ps cur = None"
    unfolding spec_nextSeat_def find_None_iff by auto
qed

lemma dealStreet_total:
  assumes "4 \<le> length d"
  shows "\<exists>ph' d' c'. dealStreet ph d c = Inr (ph', d', c')"
proof -
  from assms have a: "d \<noteq> []" "butlast d \<noteq> []" "butlast (butlast d) \<noteq> []"
    "butlast (butlast (butlast d)) \<noteq> []"
    by (auto simp: length_0_conv[symmetric] simp del: length_0_conv)
  then show ?thesis by (simp add: dealStreet_def popCard_def)
qed

lemma firstActorScan_find:
  assumes n: "ps \<noteq> []" and base: "0 \<le> base" and len: "length ps \<le> 11"
  shows "c \<le> length ps \<Longrightarrow>
     (case List.find (\<lambda>i. canAct (ps ! nat i)) (map (\<lambda>j. (base + int j) mod int (length ps)) [c..<length ps]) of
        None \<Rightarrow> True
      | Some s \<Rightarrow> firstActorScan ps ((base + int c) mod int (length ps)) c = Inr s)"
proof (induction "length ps - c" arbitrary: c)
  case 0
  then show ?case by simp
next
  case (Suc k)
  then have c: "c < length ps" by simp
  from n have pos: "0 < int (length ps)" by simp
  let ?i = "(base + int c) mod int (length ps)"
  have rng: "0 \<le> ?i" "?i < int (length ps)" using pos by simp_all
  then have seat: "seatOf ps ?i = Inr (ps ! nat ?i)" by (simp add: seatOf_def seatAt_def)
  have nxt: "jsRem (?i + 1) (int (length ps)) = (base + int (Suc c)) mod int (length ps)"
  proof -
    have "jsRem (?i + 1) (int (length ps)) = (?i + 1) mod int (length ps)"
      using rng pos by (simp add: jsRem_nonneg)
    also have "\<dots> = (base + int c + 1) mod int (length ps)" by (simp add: mod_simps)
    also have "base + int c + 1 = base + int (Suc c)" by simp
    finally show ?thesis .
  qed
  have upt: "[c..<length ps] = c # [Suc c..<length ps]" using c by (simp add: upt_conv_Cons)
  show ?case
  proof (cases "canAct (ps ! nat ?i)")
    case True
    then have "firstActorScan ps ?i c = Inr ?i"
      by (subst firstActorScan.simps) (auto simp: seat canAct_def)
    with True show ?thesis by (simp add: upt)
  next
    case False
    show ?thesis
    proof (cases "c < 10")
      case True
      with False have step: "firstActorScan ps ?i c
          = firstActorScan ps ((base + int (Suc c)) mod int (length ps)) (Suc c)"
        by (subst firstActorScan.simps) (auto simp: seat canAct_def nxt)
      from Suc.hyps(2) c have "k = length ps - Suc c" "Suc c \<le> length ps" by simp_all
      from Suc.hyps(1)[OF this, folded step] False show ?thesis by (simp add: upt)
    next
      case ge: False
      with c len have "Suc c = length ps" by simp
      then have "[c..<length ps] = [c]" using upt by simp
      with False show ?thesis by simp
    qed
  qed
qed

lemma spec_nextSeat_reset:
  "spec_nextSeat (map (\<lambda>p. p\<lparr>player.currentBet := 0\<rparr>) ps) cur = spec_nextSeat ps cur"
proof (cases "ps = []")
  case True
  then show ?thesis by (simp add: spec_nextSeat_def)
next
  case False
  then have pos: "0 < int (length ps)" by simp
  show ?thesis
    unfolding spec_nextSeat_def length_map
  proof (rule find_cong[OF refl])
    fix x assume "x \<in> set (map (\<lambda>j. (cur + 1 + int j) mod int (length ps)) [0..<length ps])"
    then have "0 \<le> x" "x < int (length ps)" using pos by auto
    then have "nat x < length ps" by simp
    then show "canAct (map (\<lambda>p. p\<lparr>player.currentBet := 0\<rparr>) ps ! nat x) = canAct (ps ! nat x)"
      by (simp add: canAct_def)
  qed
qed

lemma nextPhase_first_actor:
  assumes ph: "phase state \<noteq> RIVER" and dk: "4 \<le> length (deck state)"
    and dl: "0 \<le> dealerIndex state" and ne: "players state \<noteq> []"
    and len: "length (players state) \<le> 11"
    and t: "spec_nextSeat (players state) (dealerIndex state) = Some t"
  shows "\<exists>state'. nextPhase now state = Some (Inr state') \<and> currentPlayerIndex state' = t
      \<and> players state' = map (\<lambda>p. p\<lparr>player.currentBet := 0\<rparr>) (players state)"
proof -
  let ?ps = "players state"
  let ?ps' = "map (\<lambda>p. p\<lparr>player.currentBet := 0\<rparr>) ?ps"
  let ?n = "int (length ?ps)"
  from ne have pos: "0 < ?n" by simp
  from ne have ne': "?ps' \<noteq> []" by simp
  from len have len': "length ?ps' \<le> 11" by simp
  from dl have base: "0 \<le> dealerIndex state + 1" by simp
  have start: "jsRem (dealerIndex state + 1) ?n = (dealerIndex state + 1 + int 0) mod int (length ?ps')"
    using dl pos by (simp add: jsRem_nonneg)
  from t have t': "spec_nextSeat ?ps' (dealerIndex state) = Some t" by (simp only: spec_nextSeat_reset)
  from firstActorScan_find[OF ne' base len', of 0] t'
  have scan: "firstActorScan ?ps' (jsRem (dealerIndex state + 1) ?n) 0 = Inr t"
    unfolding start spec_nextSeat_def by simp
  from spec_nextSeat_Some[OF ne t] have "nat t < length ?ps" "canAct (?ps ! nat t)"
    by (auto simp: canAct_def)
  then have "?ps ! nat t \<in> set ?ps" "isActive (?ps ! nat t) \<and> \<not> isAllIn (?ps ! nat t)"
    by (simp_all add: canAct_def)
  then have some: "filter (\<lambda>p. isActive p \<and> \<not> isAllIn p) ?ps' \<noteq> []"
    by (auto simp: filter_empty_conv)
  from dealStreet_total[OF dk] obtain ph' d' c' where
    ds: "dealStreet (phase state) (deck state) (communityCards state) = Inr (ph', d', c')" by blast
  show ?thesis
    by (subst nextPhase.simps) (simp add: ph ds ne scan some)
qed

lemma handleShowdown_pointer:
  "\<exists>state'. handleShowdown now state = Inr state' \<and> currentPlayerIndex state' = currentPlayerIndex state"
proof (cases "filter isActive (players state) = []")
  case True
  then show ?thesis by (simp add: handleShowdown_def)
next
  case False
  from showdownScan_start[OF False, of "communityCards state"] obtain b ws d where
    "showdownScan (communityCards state) (filter isActive (players state)) (- 1, [], []) = Inr (b, ws, d)"
    by blast
  with False show ?thesis by (simp add: handleShowdown_def Let_def)
qed

lemma nextPhase_river:
  assumes "phase state = RIVER"
  shows "\<exists>state'. nextPhase now state = Some (Inr state') \<and> currentPlayerIndex state' = currentPlayerIndex state"
proof -
  from handleShowdown_pointer[of now "state\<lparr>players := map (\<lambda>p. p\<lparr>player.currentBet := 0\<rparr>) (players state)\<rparr>"]
  show ?thesis using assms by (subst nextPhase.simps) simp
qed


text \<open>
  C6, as the code has it. On a table with at least one seat and a turn pointer that is
  not negative, \<open>nextTurn\<close> looks for the first seat, going round from the seat after
  the current one for one full lap, that is active and not all-in. If there is none it
  hands over to \<open>nextPhase\<close> and sets no turn pointer itself. If there is one, it hands
  over to \<open>nextPhase\<close> as well when the round is closed (the seat is the last raiser and
  its bet matches the table's); only otherwise does it return the state with
  \<open>currentPlayerIndex\<close> set to that seat, a valid index of an active seat that is not
  all-in, and every other field as it was. When it hands over on the river, the state
  returned is the showdown's and its turn pointer is the one the call was given, whatever
  seat that is: a folded or all-in seat stays selected. When it hands over before the
  river because the round is closed, with four cards or more in the deck, a dealer index
  that is not negative and at most eleven seats, the state returned has the turn pointer
  on the first seat after the dealer that is active and not all-in.
\<close>

theorem nextTurn_selects:
  assumes ne: "players state \<noteq> []" and cur: "0 \<le> currentPlayerIndex state"
  shows "nextTurn now state =
           (case spec_nextSeat (players state) (currentPlayerIndex state) of
              None \<Rightarrow> nextPhase now state
            | Some s \<Rightarrow>
                if lastRaiserIndex state = Some s
                   \<and> player.currentBet (players state ! nat s) = currentBet state
                then nextPhase now state
                else Some (Inr (state\<lparr>currentPlayerIndex := s\<rparr>)))
       \<and> ((spec_nextSeat (players state) (currentPlayerIndex state) = None)
            = (\<forall>p\<in>set (players state). \<not> (isActive p \<and> \<not> isAllIn p)))
       \<and> (\<forall>s. spec_nextSeat (players state) (currentPlayerIndex state) = Some s \<longrightarrow>
             0 \<le> s \<and> s < int (length (players state))
             \<and> isActive (players state ! nat s) \<and> \<not> isAllIn (players state ! nat s))
       \<and> (phase state = RIVER
            \<and> (spec_nextSeat (players state) (currentPlayerIndex state) = None
                \<or> (\<exists>s. spec_nextSeat (players state) (currentPlayerIndex state) = Some s
                      \<and> lastRaiserIndex state = Some s
                      \<and> player.currentBet (players state ! nat s) = currentBet state)) \<longrightarrow>
            (\<exists>state'. nextTurn now state = Some (Inr state')
               \<and> currentPlayerIndex state' = currentPlayerIndex state))
       \<and> (phase state \<noteq> RIVER \<and> 4 \<le> length (deck state) \<and> 0 \<le> dealerIndex state
            \<and> length (players state) \<le> 11
            \<and> (\<exists>s. spec_nextSeat (players state) (currentPlayerIndex state) = Some s
                  \<and> lastRaiserIndex state = Some s
                  \<and> player.currentBet (players state ! nat s) = currentBet state) \<longrightarrow>
            (\<exists>state' t. nextTurn now state = Some (Inr state')
               \<and> spec_nextSeat (players state) (dealerIndex state) = Some t
               \<and> currentPlayerIndex state' = t
               \<and> 0 \<le> t \<and> t < int (length (players state'))
               \<and> isActive (players state' ! nat t) \<and> \<not> isAllIn (players state' ! nat t)))"
proof (intro conjI)
  let ?ps = "players state"
  let ?n = "int (length ?ps)"
  let ?next = "spec_nextSeat ?ps (currentPlayerIndex state)"
  from ne have pos: "0 < ?n" by simp
  have start: "jsRem (currentPlayerIndex state + 1) ?n = (currentPlayerIndex state + 1 + int 0) mod ?n"
    using cur pos by (simp add: jsRem_nonneg)
  have base: "0 \<le> currentPlayerIndex state + 1" using cur by simp
  note scan = nextSeatScan_find[OF ne base, of 0]
  show split: "nextTurn now state =
           (case ?next of
              None \<Rightarrow> nextPhase now state
            | Some s \<Rightarrow>
                if lastRaiserIndex state = Some s \<and> player.currentBet (?ps ! nat s) = currentBet state
                then nextPhase now state
                else Some (Inr (state\<lparr>currentPlayerIndex := s\<rparr>)))"
  proof (cases ?next)
    case None
    with scan obtain i where "nextSeatScan ?ps ((currentPlayerIndex state + 1 + int 0) mod ?n) 0 = Inr (i, length ?ps)"
      by (auto simp: spec_nextSeat_def)
    with None ne show ?thesis by (simp add: nextTurn_def start)
  next
    case (Some s)
    with scan obtain c' where c': "c' < length ?ps"
        "nextSeatScan ?ps ((currentPlayerIndex state + 1 + int 0) mod ?n) 0 = Inr (s, c')"
      by (auto simp: spec_nextSeat_def)
    from spec_nextSeat_Some[OF ne Some] have "seatOf ?ps s = Inr (?ps ! nat s)"
      by (simp add: seatOf_def seatAt_def)
    with Some ne c' show ?thesis by (simp add: nextTurn_def start Let_def)
  qed
  show "(?next = None) = (\<forall>p\<in>set ?ps. \<not> (isActive p \<and> \<not> isAllIn p))"
    using spec_nextSeat_None[OF ne] by (simp add: canAct_def)
  show "\<forall>s. ?next = Some s \<longrightarrow>
             0 \<le> s \<and> s < int (length ?ps) \<and> isActive (?ps ! nat s) \<and> \<not> isAllIn (?ps ! nat s)"
    using spec_nextSeat_Some[OF ne] by blast
  show "phase state = RIVER
            \<and> (?next = None
                \<or> (\<exists>s. ?next = Some s \<and> lastRaiserIndex state = Some s
                      \<and> player.currentBet (?ps ! nat s) = currentBet state)) \<longrightarrow>
            (\<exists>state'. nextTurn now state = Some (Inr state')
               \<and> currentPlayerIndex state' = currentPlayerIndex state)"
  proof
    assume h: "phase state = RIVER
            \<and> (?next = None
                \<or> (\<exists>s. ?next = Some s \<and> lastRaiserIndex state = Some s
                      \<and> player.currentBet (?ps ! nat s) = currentBet state))"
    then have "nextTurn now state = nextPhase now state" unfolding split by auto
    with nextPhase_river[of state now] h
    show "\<exists>state'. nextTurn now state = Some (Inr state')
               \<and> currentPlayerIndex state' = currentPlayerIndex state" by simp
  qed
  show "phase state \<noteq> RIVER \<and> 4 \<le> length (deck state) \<and> 0 \<le> dealerIndex state
            \<and> length ?ps \<le> 11
            \<and> (\<exists>s. ?next = Some s \<and> lastRaiserIndex state = Some s
                  \<and> player.currentBet (?ps ! nat s) = currentBet state) \<longrightarrow>
            (\<exists>state' t. nextTurn now state = Some (Inr state')
               \<and> spec_nextSeat ?ps (dealerIndex state) = Some t
               \<and> currentPlayerIndex state' = t
               \<and> 0 \<le> t \<and> t < int (length (players state'))
               \<and> isActive (players state' ! nat t) \<and> \<not> isAllIn (players state' ! nat t))"
  proof
    assume h: "phase state \<noteq> RIVER \<and> 4 \<le> length (deck state) \<and> 0 \<le> dealerIndex state
            \<and> length ?ps \<le> 11
            \<and> (\<exists>s. ?next = Some s \<and> lastRaiserIndex state = Some s
                  \<and> player.currentBet (?ps ! nat s) = currentBet state)"
    then obtain s where s: "?next = Some s" "lastRaiserIndex state = Some s"
        "player.currentBet (?ps ! nat s) = currentBet state" by blast
    then have del: "nextTurn now state = nextPhase now state" unfolding split by simp
    from s(1) have "?next \<noteq> None" by simp
    then have "\<not> (\<forall>p\<in>set ?ps. \<not> canAct p)" unfolding spec_nextSeat_None[OF ne] .
    then have "spec_nextSeat ?ps (dealerIndex state) \<noteq> None" unfolding spec_nextSeat_None[OF ne] .
    then obtain t where t: "spec_nextSeat ?ps (dealerIndex state) = Some t" by blast
    from h have "phase state \<noteq> RIVER" "4 \<le> length (deck state)" "0 \<le> dealerIndex state"
      "length ?ps \<le> 11" by simp_all
    from nextPhase_first_actor[OF this(1,2,3) ne this(4) t, of now] obtain state' where
      r: "nextPhase now state = Some (Inr state')" "currentPlayerIndex state' = t"
         "players state' = map (\<lambda>p. p\<lparr>player.currentBet := 0\<rparr>) ?ps" by blast
    from spec_nextSeat_Some[OF ne t] have
      tt: "0 \<le> t" "t < ?n" "isActive (?ps ! nat t)" "\<not> isAllIn (?ps ! nat t)" by simp_all
    then have "nat t < length ?ps" by simp
    with tt r(3) have "t < int (length (players state'))"
      "isActive (players state' ! nat t)" "\<not> isAllIn (players state' ! nat t)" by simp_all
    with del r(1,2) t tt(1)
    show "\<exists>state' t. nextTurn now state = Some (Inr state')
               \<and> spec_nextSeat ?ps (dealerIndex state) = Some t
               \<and> currentPlayerIndex state' = t
               \<and> 0 \<le> t \<and> t < int (length (players state'))
               \<and> isActive (players state' ! nat t) \<and> \<not> isAllIn (players state' ! nat t)"
      by auto
  qed
qed

theorem nextTurn_selects_witness:
  "players turnTable \<noteq> [] \<and> 0 \<le> currentPlayerIndex turnTable
   \<and> spec_nextSeat (players turnTable) (currentPlayerIndex turnTable) = Some 3
   \<and> nextTurn ''12:00'' turnTable = Some (Inr (turnTable\<lparr>currentPlayerIndex := 3\<rparr>))
   \<and> isActive (players turnTable ! 3) \<and> \<not> isAllIn (players turnTable ! 3)
   \<and> players riverFoldTable \<noteq> [] \<and> 0 \<le> currentPlayerIndex riverFoldTable
   \<and> phase riverFoldTable = RIVER
   \<and> spec_nextSeat (players riverFoldTable) (currentPlayerIndex riverFoldTable) = Some 0
   \<and> lastRaiserIndex riverFoldTable = Some 0
   \<and> player.currentBet (players riverFoldTable ! 0) = currentBet riverFoldTable
   \<and> (\<exists>state'. nextTurn ''12:00'' riverFoldTable = Some (Inr state') \<and> currentPlayerIndex state' = 1)
   \<and> players closedTable \<noteq> [] \<and> 0 \<le> currentPlayerIndex closedTable
   \<and> phase closedTable = FLOP \<and> 4 \<le> length (deck closedTable) \<and> 0 \<le> dealerIndex closedTable
   \<and> length (players closedTable) \<le> 11
   \<and> spec_nextSeat (players closedTable) (currentPlayerIndex closedTable) = Some 3
   \<and> lastRaiserIndex closedTable = Some 3
   \<and> player.currentBet (players closedTable ! 3) = currentBet closedTable
   \<and> (\<exists>state'. nextTurn ''12:00'' closedTable = Some (Inr state') \<and> currentPlayerIndex state' = 3
         \<and> isActive (players state' ! 3) \<and> \<not> isAllIn (players state' ! 3))"
proof -
  have h1: "players turnTable \<noteq> []" by (simp add: turnTable_def mkTable_def turnSeats_def)
  have h2: "0 \<le> currentPlayerIndex turnTable" by (simp add: turnTable_def mkTable_def)
  have s: "spec_nextSeat (players turnTable) (currentPlayerIndex turnTable) = Some 3" by code_simp
  have lr: "lastRaiserIndex turnTable = Some 0" by (simp add: turnTable_def mkTable_def)
  from nextTurn_selects[OF h1 h2, of "''12:00''"]
  have a1: "nextTurn ''12:00'' turnTable =
           (case spec_nextSeat (players turnTable) (currentPlayerIndex turnTable) of
              None \<Rightarrow> nextPhase ''12:00'' turnTable
            | Some s \<Rightarrow>
                if lastRaiserIndex turnTable = Some s
                   \<and> player.currentBet (players turnTable ! nat s) = currentBet turnTable
                then nextPhase ''12:00'' turnTable
                else Some (Inr (turnTable\<lparr>currentPlayerIndex := s\<rparr>)))"
    and a2: "\<forall>s. spec_nextSeat (players turnTable) (currentPlayerIndex turnTable) = Some s \<longrightarrow>
             0 \<le> s \<and> s < int (length (players turnTable))
             \<and> isActive (players turnTable ! nat s) \<and> \<not> isAllIn (players turnTable ! nat s)"
    by blast+
  from a1 s lr have a: "nextTurn ''12:00'' turnTable = Some (Inr (turnTable\<lparr>currentPlayerIndex := 3\<rparr>))"
    by simp
  from a2 s have b: "isActive (players turnTable ! 3) \<and> \<not> isAllIn (players turnTable ! 3)"
    by (simp add: eval_nat_numeral)
  have r1: "players riverFoldTable \<noteq> []" by code_simp
  have r2: "0 \<le> currentPlayerIndex riverFoldTable" by code_simp
  have r3: "phase riverFoldTable = RIVER" by code_simp
  have r4: "spec_nextSeat (players riverFoldTable) (currentPlayerIndex riverFoldTable) = Some 0"
    by code_simp
  have r5: "lastRaiserIndex riverFoldTable = Some 0" by code_simp
  have r6: "player.currentBet (players riverFoldTable ! 0) = currentBet riverFoldTable" by code_simp
  have r7: "currentPlayerIndex riverFoldTable = 1" by code_simp
  from r6 have r6': "player.currentBet (players riverFoldTable ! nat 0) = currentBet riverFoldTable"
    by simp
  note river = nextTurn_selects[OF r1 r2, of "''12:00''", THEN conjunct2, THEN conjunct2,
      THEN conjunct2, THEN conjunct1]
  from river r3 r4 r5 r6'
  have "\<exists>state'. nextTurn ''12:00'' riverFoldTable = Some (Inr state')
               \<and> currentPlayerIndex state' = currentPlayerIndex riverFoldTable"
    by blast
  then have c: "\<exists>state'. nextTurn ''12:00'' riverFoldTable = Some (Inr state') \<and> currentPlayerIndex state' = 1"
    unfolding r7 .
  have f1: "players closedTable \<noteq> []" by code_simp
  have f2: "0 \<le> currentPlayerIndex closedTable" by code_simp
  have f3: "phase closedTable = FLOP" by code_simp
  have f4: "4 \<le> length (deck closedTable)" by code_simp
  have f5: "0 \<le> dealerIndex closedTable" by code_simp
  have f6: "length (players closedTable) \<le> 11" by code_simp
  have f7: "spec_nextSeat (players closedTable) (currentPlayerIndex closedTable) = Some 3" by code_simp
  have f8: "lastRaiserIndex closedTable = Some 3" by code_simp
  have f9: "player.currentBet (players closedTable ! 3) = currentBet closedTable" by code_simp
  have f10: "spec_nextSeat (players closedTable) (dealerIndex closedTable) = Some 3" by code_simp
  from f3 have f3': "phase closedTable \<noteq> RIVER" by simp
  from f9 have f9': "player.currentBet (players closedTable ! nat 3) = currentBet closedTable"
    by (simp add: eval_nat_numeral)
  note early = nextTurn_selects[OF f1 f2, of "''12:00''", THEN conjunct2, THEN conjunct2,
      THEN conjunct2, THEN conjunct2]
  from early f3' f4 f5 f6 f7 f8 f9'
  have "\<exists>state' t. nextTurn ''12:00'' closedTable = Some (Inr state')
               \<and> spec_nextSeat (players closedTable) (dealerIndex closedTable) = Some t
               \<and> currentPlayerIndex state' = t
               \<and> 0 \<le> t \<and> t < int (length (players state'))
               \<and> isActive (players state' ! nat t) \<and> \<not> isAllIn (players state' ! nat t)"
    by blast
  then have d: "\<exists>state'. nextTurn ''12:00'' closedTable = Some (Inr state') \<and> currentPlayerIndex state' = 3
         \<and> isActive (players state' ! 3) \<and> \<not> isAllIn (players state' ! 3)"
    unfolding f10 by (auto simp: eval_nat_numeral)
  from h1 h2 s a b r1 r2 r3 r4 r5 r6 c f1 f2 f3 f4 f5 f6 f7 f8 f9 d show ?thesis by blast
qed

theorem river_fold_counterexample:
  "nextTurn ''12:00'' betTableAfter = Some (Inr (betTableAfter\<lparr>currentPlayerIndex := 1\<rparr>))
   \<and> nextTurn ''12:00'' riverFoldTable = Some (Inr riverFoldAfter)
   \<and> isActive (players riverFoldTable ! 0) = True
   \<and> isAllIn (players riverFoldTable ! 0) = False
   \<and> currentPlayerIndex riverFoldAfter = 1
   \<and> isActive (players riverFoldAfter ! 1) = False"
  by code_simp

end
